theory Spec2Isabelle
  imports Complex_Main "HOL-Library.AList" "HOL-Library.Log_Nat" "HOL-Library.Word"
begin

section \<open>Values of the program\<close>

text \<open>
  The finance tracker keeps every RecordSet as a JSON value in \<open>localStorage\<close>. A JSON
  object is its list of own properties in insertion order. A number of a JSON value is
  the rational that the IEEE 754 double denotes; the arithmetic of doubles is defined with
  the \<open>+\<close> operator below.
\<close>

datatype json =
    JNull
  | JBool bool
  | JNum rat
  | JStr string
  | JArr "json list"
  | JObj "(string \<times> json) list"

text \<open>
  The list of an object is the list of its own properties as JavaScript enumerates them:
  the keys are distinct, those that are array indices (canonical decimal numerals below
  \<open>2^32 - 1\<close>) come first in ascending order, the others follow in insertion order. A
  value is well formed when every object in it is such a list.
\<close>

definition digit :: "char \<Rightarrow> bool" where
  "digit c = (48 \<le> (of_char c :: nat) \<and> (of_char c :: nat) \<le> 57)"

definition index_value :: "string \<Rightarrow> nat" where
  "index_value k = foldl (\<lambda>n c. 10 * n + (of_char c - 48)) 0 k"

definition array_index :: "string \<Rightarrow> bool" where
  "array_index k =
     (k \<noteq> [] \<and> list_all digit k \<and> (k = ''0'' \<or> hd k \<noteq> CHR ''0'')
      \<and> index_value k < 4294967295)"

definition key_order :: "string list \<Rightarrow> bool" where
  "key_order ks =
     (sorted_wrt (\<lambda>a b. index_value a < index_value b) (takeWhile array_index ks)
      \<and> list_all (\<lambda>k. \<not> array_index k) (dropWhile array_index ks))"

fun wf_json :: "json \<Rightarrow> bool" where
  "wf_json (JArr xs) = (\<forall>x \<in> set xs. wf_json x)"
| "wf_json (JObj kvs) =
     (distinct (map fst kvs) \<and> key_order (map fst kvs) \<and> (\<forall>kv \<in> set kvs. wf_json (snd kv)))"
| "wf_json v = True"

text \<open>
  Exceptions of the host (\<open>TypeError\<close>, the \<open>SyntaxError\<close> of \<open>JSON.parse\<close>, the
  \<open>InvalidCharacterError\<close> of \<open>atob\<close>, the \<open>OperationError\<close> of \<open>crypto.subtle\<close>) and the
  program's own \<open>new Error(message)\<close>.
\<close>

datatype error =
    TypeError
  | SyntaxError
  | InvalidCharacterError
  | OperationError
  | Error string

text \<open>
  A promise is modelled by its eventual settlement (\<open>Inl\<close>: rejected). The \<open>async\<close>
  functions of \<open>security.js\<close> change no state after their first \<open>await\<close>, so the
  settlement is a function of the state at the call.
\<close>

datatype 'a promise = Promise "error + 'a"

text \<open>
  What a caller of \<open>getData\<close> holds: a JSON value, or a Promise object (with the own
  properties that were assigned to it, which \<open>JSON.stringify\<close> serialises).
\<close>

datatype jsval = Val json | PromiseObj "(string \<times> json) list" "json promise"

type_synonym bytes = "8 word list"

text \<open>A \<open>CryptoKey\<close>: the derived key bits, read as a number.\<close>

datatype cryptokey = CryptoKey nat

section \<open>The host environment\<close>

text \<open>
  The browser built-ins the program calls are parameters of the model. \<open>None\<close> is the
  built-in throwing. \<open>getRandomValues h n\<close> is the nonce that the \<open>n\<close>-th call of
  \<open>crypto.getRandomValues(new Uint8Array(12))\<close> returns. \<open>btoa_bytes\<close> is
  \<open>btoa(String.fromCharCode.apply(null, bytes))\<close> and \<open>atob_bytes\<close> is
  \<open>atob(s).split('').map(char => char.charCodeAt(0))\<close>.
  \<open>setItem_throws\<close> tells whether \<open>localStorage.setItem\<close> throws (quota exceeded) for a
  store, a key and a value. \<open>Number_toString\<close> is the decimal text of a finite Number
  (\<open>Number::toString\<close>).
\<close>

record host =
  JSON_stringify :: "json \<Rightarrow> string"
  JSON_parse :: "string \<Rightarrow> json option"
  TextEncoder_encode :: "string \<Rightarrow> bytes"
  TextDecoder_decode :: "bytes \<Rightarrow> string"
  subtle_deriveKey :: "bytes \<Rightarrow> bytes \<Rightarrow> nat \<Rightarrow> string \<Rightarrow> nat \<Rightarrow> cryptokey"
  subtle_encrypt :: "cryptokey \<Rightarrow> bytes \<Rightarrow> bytes \<Rightarrow> bytes"
  subtle_decrypt :: "cryptokey \<Rightarrow> bytes \<Rightarrow> bytes \<Rightarrow> bytes option"
  getRandomValues :: "nat \<Rightarrow> bytes"
  btoa_bytes :: "bytes \<Rightarrow> string"
  atob_bytes :: "string \<Rightarrow> bytes option"
  setItem_throws :: "(string \<times> string) list \<Rightarrow> string \<Rightarrow> string \<Rightarrow> bool"
  Number_toString :: "rat \<Rightarrow> string"

section \<open>The state\<close>

text \<open>
  \<open>localStorage\<close> in key order; the two fields of the \<open>DataManager\<close> instance
  (\<open>dataManager.encryptionKey\<close>, \<open>dataManager.isEncrypted\<close>); the two fields of the
  \<open>SecurityManager\<close> instance; and the observable effects on the host: the
  \<open>showAlert(message, type)\<close> calls, whether \<open>lockApp\<close> replaced the document body, the
  number of nonces drawn and the number of PBKDF2 derivations run.
\<close>

record world =
  localStorage :: "(string \<times> string) list"
  dm_encryptionKey :: "cryptokey option"
  dm_isEncrypted :: bool
  sm_isEncryptionEnabled :: bool
  sm_encryptionKey :: "cryptokey option"
  alerts :: "(string \<times> string) list"
  locked :: bool
  iv_draws :: nat
  kdf_calls :: nat

definition storagePrefix :: string where
  "storagePrefix = ''financeTracker_''"

definition getItem :: "(string \<times> string) list \<Rightarrow> string \<Rightarrow> string option" where
  "getItem ls k = map_of ls k"

definition setItem :: "(string \<times> string) list \<Rightarrow> string \<Rightarrow> string \<Rightarrow> (string \<times> string) list" where
  "setItem ls k v = AList.update k v ls"

section \<open>JavaScript operations on values\<close>

fun truthy :: "jsval \<Rightarrow> bool" where
  "truthy (Val JNull) = False"
| "truthy (Val (JBool b)) = b"
| "truthy (Val (JNum n)) = (n \<noteq> 0)"
| "truthy (Val (JStr s)) = (s \<noteq> [])"
| "truthy (Val (JArr xs)) = True"
| "truthy (Val (JObj kvs)) = True"
| "truthy (PromiseObj ps p) = True"

text \<open>\<open>x || d\<close>\<close>

definition js_or :: "jsval \<Rightarrow> jsval \<Rightarrow> jsval" where
  "js_or x d = (if truthy x then x else d)"

text \<open>
  \<open>v.k\<close> for the property names this program reads (\<open>goals\<close>, \<open>assets\<close>, \<open>history\<close>,
  \<open>id\<close>, \<open>name\<close>, \<open>type\<close>, \<open>value\<close>, \<open>amount\<close>): none is \<open>length\<close>, an index or an
  inherited property, so only an object has them. \<open>None\<close> is \<open>undefined\<close>; reading a
  property of \<open>null\<close> throws.
\<close>

fun get_prop :: "json \<Rightarrow> string \<Rightarrow> error + json option" where
  "get_prop JNull k = Inl TypeError"
| "get_prop (JObj kvs) k = Inr (map_of kvs k)"
| "get_prop v k = Inr None"

fun get_field :: "jsval \<Rightarrow> string \<Rightarrow> error + json option" where
  "get_field (Val v) k = get_prop v k"
| "get_field (PromiseObj ps p) k = Inr (map_of ps k)"

text \<open>
  \<open>v.k = x\<close> in strict mode (class bodies are strict): on an object the property is set
  in place or added last; on an array it becomes a non-index property, which
  \<open>JSON.stringify\<close> does not serialise; on a primitive it throws.
\<close>

fun set_field :: "jsval \<Rightarrow> string \<Rightarrow> json \<Rightarrow> error + jsval" where
  "set_field (Val (JObj kvs)) k x = Inr (Val (JObj (AList.update k x kvs)))"
| "set_field (Val (JArr xs)) k x = Inr (Val (JArr xs))"
| "set_field (PromiseObj ps p) k x = Inr (PromiseObj (AList.update k x ps) p)"
| "set_field (Val v) k x = Inl TypeError"

text \<open>
  \<open>a === b\<close> with \<open>None\<close> for \<open>undefined\<close>. Objects and arrays compare by reference, and
  the two sides here always come from different sources (a parsed entry and an argument).
\<close>

fun strict_eq :: "json option \<Rightarrow> json option \<Rightarrow> bool" where
  "strict_eq None None = True"
| "strict_eq (Some JNull) (Some JNull) = True"
| "strict_eq (Some (JBool a)) (Some (JBool b)) = (a = b)"
| "strict_eq (Some (JNum a)) (Some (JNum b)) = (a = b)"
| "strict_eq (Some (JStr a)) (Some (JStr b)) = (a = b)"
| "strict_eq a b = False"

text \<open>\<open>xs.findIndex(x => x.k === target)\<close>; \<open>Inr None\<close> is \<open>-1\<close>.\<close>

fun findIndex :: "string \<Rightarrow> json option \<Rightarrow> json list \<Rightarrow> error + nat option" where
  "findIndex k target [] = Inr None"
| "findIndex k target (x # xs) =
     (case get_prop x k of
        Inl e \<Rightarrow> Inl e
      | Inr p \<Rightarrow>
          if strict_eq p target then Inr (Some 0)
          else (case findIndex k target xs of
                  Inl e \<Rightarrow> Inl e
                | Inr None \<Rightarrow> Inr None
                | Inr (Some i) \<Rightarrow> Inr (Some (Suc i))))"

text \<open>\<open>xs.splice(i, 1)\<close>\<close>

definition splice1 :: "nat \<Rightarrow> 'a list \<Rightarrow> 'a list" where
  "splice1 i xs = take i xs @ drop (Suc i) xs"

text \<open>
  An object literal whose property values may be \<open>undefined\<close>: \<open>JSON.stringify\<close> leaves
  those properties out, and the literal is only ever serialised.
\<close>

fun obj_lit :: "(string \<times> json option) list \<Rightarrow> (string \<times> json) list" where
  "obj_lit [] = []"
| "obj_lit ((k, None) # kvs) = obj_lit kvs"
| "obj_lit ((k, Some v) # kvs) = (k, v) # obj_lit kvs"

text \<open>\<open>JSON.stringify\<close> of a runtime value, and \<open>String(x)\<close> of a promise.\<close>

fun stringify :: "host \<Rightarrow> jsval \<Rightarrow> string" where
  "stringify h (Val v) = JSON_stringify h v"
| "stringify h (PromiseObj ps p) = JSON_stringify h (JObj ps)"

definition String_of_promise :: string where
  "String_of_promise = ''[object Promise]''"

subsection \<open>Numbers and the \<open>+\<close> operator\<close>

text \<open>
  A Number is an IEEE 754 double: a finite one is the rational it denotes, and there are
  the two infinities and \<open>NaN\<close>. The two zeros are one value here, which this program
  cannot tell apart: \<open>===\<close> equates them, \<open>JSON.stringify\<close> writes both as \<open>0\<close>, adding
  either leaves the other operand as it is, and a sum that starts from \<open>+0\<close> is never
  \<open>-0\<close>.
\<close>

datatype jsnumber = Number rat | PosInfinity | NegInfinity | NaN

text \<open>
  Rounding to the nearest double, ties to even. In units of the least subnormal,
  \<open>2^-1074\<close>, a double is an integer of at most 53 significant bits (\<open>floorlog 2 n\<close> is the
  number of bits of \<open>n\<close>) that is below \<open>2^2098\<close> (that is, below \<open>2^1024\<close>); a result that
  rounds to \<open>2^1024\<close> or more is an infinity.
\<close>

definition round_half_even :: "rat \<Rightarrow> int" where
  "round_half_even x =
     (let f = \<lfloor>x\<rfloor>; r = x - of_int f
      in if r < 1 / 2 then f else if 1 / 2 < r then f + 1 else if even f then f else f + 1)"

definition round_double :: "rat \<Rightarrow> jsnumber" where
  "round_double q =
     (let n = \<bar>q\<bar> * 2 ^ 1074;
          k = floorlog 2 (nat \<lfloor>n\<rfloor>) - 53;
          m = round_half_even (n / 2 ^ k) * 2 ^ k
      in if 2 ^ 2098 \<le> m then (if q < 0 then NegInfinity else PosInfinity)
         else Number (sgn q * of_int m / 2 ^ 1074))"

text \<open>\<open>Number::add\<close>: the exact sum of two finite Numbers, rounded.\<close>

fun Number_add :: "jsnumber \<Rightarrow> jsnumber \<Rightarrow> jsnumber" where
  "Number_add (Number a) (Number b) = round_double (a + b)"
| "Number_add NaN y = NaN"
| "Number_add x NaN = NaN"
| "Number_add PosInfinity NegInfinity = NaN"
| "Number_add NegInfinity PosInfinity = NaN"
| "Number_add PosInfinity y = PosInfinity"
| "Number_add x PosInfinity = PosInfinity"
| "Number_add NegInfinity y = NegInfinity"
| "Number_add x NegInfinity = NegInfinity"

text \<open>\<open>ToString\<close> of a Number.\<close>

fun Number_text :: "host \<Rightarrow> jsnumber \<Rightarrow> string" where
  "Number_text h (Number q) = Number_toString h q"
| "Number_text h PosInfinity = ''Infinity''"
| "Number_text h NegInfinity = ''-Infinity''"
| "Number_text h NaN = ''NaN''"

text \<open>
  \<open>ToString\<close> of a value, and \<open>Array.prototype.join\<close> with the separator \<open>,\<close>, which is
  what \<open>ToString\<close> of an array calls: \<open>null\<close> elements give the empty text. The values
  are plain data, so an own \<open>toString\<close> or \<open>valueOf\<close> property of an object is not
  callable: an object is converted by \<open>Object.prototype.toString\<close>, unless an own
  \<open>toString\<close> property hides it, and then the conversion throws.
\<close>

fun ToString_value :: "host \<Rightarrow> json \<Rightarrow> error + string"
  and Array_join :: "host \<Rightarrow> json list \<Rightarrow> error + string" where
  "ToString_value h JNull = Inr ''null''"
| "ToString_value h (JBool b) = Inr (if b then ''true'' else ''false'')"
| "ToString_value h (JNum q) = Inr (Number_toString h q)"
| "ToString_value h (JStr s) = Inr s"
| "ToString_value h (JArr xs) = Array_join h xs"
| "ToString_value h (JObj kvs) =
     (if ''toString'' \<in> set (map fst kvs) then Inl TypeError else Inr ''[object Object]'')"
| "Array_join h [] = Inr []"
| "Array_join h (x # xs) =
     (case (if x = JNull then Inr [] else ToString_value h x) of
        Inl e \<Rightarrow> Inl e
      | Inr s \<Rightarrow>
          if xs = [] then Inr s
          else (case Array_join h xs of
                  Inl e \<Rightarrow> Inl e
                | Inr r \<Rightarrow> Inr (s @ '','' @ r)))"

text \<open>
  Primitive values, and \<open>ToPrimitive\<close> of what a property read returns (\<open>None\<close> is
  \<open>undefined\<close>): an array or an object becomes its text.
\<close>

datatype prim = PUndefined | PNull | PBoolean bool | PNumber jsnumber | PString string

fun ToPrimitive :: "host \<Rightarrow> json option \<Rightarrow> error + prim" where
  "ToPrimitive h None = Inr PUndefined"
| "ToPrimitive h (Some JNull) = Inr PNull"
| "ToPrimitive h (Some (JBool b)) = Inr (PBoolean b)"
| "ToPrimitive h (Some (JNum q)) = Inr (PNumber (Number q))"
| "ToPrimitive h (Some (JStr s)) = Inr (PString s)"
| "ToPrimitive h (Some (JArr xs)) =
     (case Array_join h xs of Inl e \<Rightarrow> Inl e | Inr s \<Rightarrow> Inr (PString s))"
| "ToPrimitive h (Some (JObj kvs)) =
     (if ''toString'' \<in> set (map fst kvs) then Inl TypeError else Inr (PString ''[object Object]''))"

fun ToString_prim :: "host \<Rightarrow> prim \<Rightarrow> string" where
  "ToString_prim h PUndefined = ''undefined''"
| "ToString_prim h PNull = ''null''"
| "ToString_prim h (PBoolean b) = (if b then ''true'' else ''false'')"
| "ToString_prim h (PNumber n) = Number_text h n"
| "ToString_prim h (PString s) = s"

text \<open>
  \<open>total + x\<close> for a \<open>total\<close> that is a Number or a String and a primitive \<open>x\<close>: a
  concatenation of the two texts when either is a String, the sum of the two Numbers
  otherwise (\<open>ToNumber\<close> of \<open>undefined\<close> is \<open>NaN\<close>, of \<open>null\<close> and \<open>false\<close> is \<open>0\<close>, of \<open>true\<close>
  is \<open>1\<close>).
\<close>

datatype total = TotalNumber jsnumber | TotalString string

fun js_plus :: "host \<Rightarrow> total \<Rightarrow> prim \<Rightarrow> total" where
  "js_plus h (TotalString l) x = TotalString (l @ ToString_prim h x)"
| "js_plus h (TotalNumber l) (PString r) = TotalString (Number_text h l @ r)"
| "js_plus h (TotalNumber l) PUndefined = TotalNumber (Number_add l NaN)"
| "js_plus h (TotalNumber l) PNull = TotalNumber (Number_add l (Number 0))"
| "js_plus h (TotalNumber l) (PBoolean b) = TotalNumber (Number_add l (Number (if b then 1 else 0)))"
| "js_plus h (TotalNumber l) (PNumber r) = TotalNumber (Number_add l r)"

text \<open>
  What \<open>JSON.stringify\<close> writes for a property that holds such a total: \<open>null\<close> for
  \<open>NaN\<close> and the infinities.
\<close>

fun json_of_total :: "total \<Rightarrow> json" where
  "json_of_total (TotalNumber (Number q)) = JNum q"
| "json_of_total (TotalNumber n) = JNull"
| "json_of_total (TotalString s) = JStr s"

section \<open>security.js: key derivation and the cipher\<close>

definition deriveKey_salt :: string where
  "deriveKey_salt = ''finance-tracker-salt-2023''"

text \<open>
  \<open>SecurityManager.deriveKey(password)\<close>: PBKDF2 with the fixed salt, 100000 iterations
  of SHA-256, for a 256-bit AES-GCM key. It reads no field of the instance.
\<close>

definition deriveKey :: "host \<Rightarrow> string \<Rightarrow> world \<Rightarrow> cryptokey \<times> world" where
  "deriveKey h password w =
     (let passwordBuffer = TextEncoder_encode h password;
          salt = TextEncoder_encode h deriveKey_salt;
          key = subtle_deriveKey h passwordBuffer salt 100000 ''SHA-256'' 256
      in (key, w\<lparr>kdf_calls := Suc (kdf_calls w)\<rparr>))"

text \<open>
  \<open>SecurityManager.encryptData(data)\<close>, an \<open>async\<close> function: the call returns a promise
  at once. The nonce is drawn, and \<open>this.encryptionKey\<close> is read, before the first
  \<open>await\<close>.
\<close>

definition SecurityManager_encryptData :: "host \<Rightarrow> jsval \<Rightarrow> world \<Rightarrow> string promise \<times> world" where
  "SecurityManager_encryptData h data w =
     (case sm_encryptionKey w of
        None \<Rightarrow> (Promise (Inl (Error ''Encryption key not available'')), w)
      | Some key \<Rightarrow>
          (let dataBuffer = TextEncoder_encode h (stringify h data);
               iv = getRandomValues h (iv_draws w);
               encryptedData = subtle_encrypt h key iv dataBuffer;
               combined = iv @ encryptedData
           in (Promise (Inr (btoa_bytes h combined)), w\<lparr>iv_draws := Suc (iv_draws w)\<rparr>)))"

text \<open>
  \<open>SecurityManager.decryptData(encryptedDataString)\<close>, also \<open>async\<close>: every failure
  inside its \<open>try\<close> is rethrown as \<open>Error('Failed to decrypt data')\<close>.
\<close>

definition SecurityManager_decryptData :: "host \<Rightarrow> string \<Rightarrow> world \<Rightarrow> json promise" where
  "SecurityManager_decryptData h encryptedDataString w =
     (case sm_encryptionKey w of
        None \<Rightarrow> Promise (Inl (Error ''Encryption key not available''))
      | Some key \<Rightarrow>
          (case atob_bytes h encryptedDataString of
             None \<Rightarrow> Promise (Inl (Error ''Failed to decrypt data''))
           | Some combined \<Rightarrow>
               (let iv = take 12 combined;
                    encryptedData = drop 12 combined
                in case subtle_decrypt h key iv encryptedData of
                     None \<Rightarrow> Promise (Inl (Error ''Failed to decrypt data''))
                   | Some decryptedBuffer \<Rightarrow>
                       (case JSON_parse h (TextDecoder_decode h decryptedBuffer) of
                          None \<Rightarrow> Promise (Inl (Error ''Failed to decrypt data''))
                        | Some v \<Rightarrow> Promise (Inr v)))))"

section \<open>data-manager.js: the Record Store\<close>

text \<open>
  \<open>security.js\<close> replaces \<open>dataManager.encryptData\<close> and \<open>dataManager.decryptData\<close> when
  the document has loaded. The replacements call the \<open>async\<close> methods of the
  \<open>SecurityManager\<close> without awaiting them, so in the encrypting branch they return a
  promise. (The class's own placeholders, \<open>JSON.stringify\<close> and \<open>JSON.parse\<close>, are in
  force only before that, when no key can be installed.)
\<close>

datatype stored = Text string | Pending "string promise"

text \<open>\<open>localStorage.setItem(key, x)\<close> stores \<open>String(x)\<close>.\<close>

fun String_of :: "stored \<Rightarrow> string" where
  "String_of (Text s) = s"
| "String_of (Pending p) = String_of_promise"

definition dataManager_encryptData :: "host \<Rightarrow> jsval \<Rightarrow> world \<Rightarrow> stored \<times> world" where
  "dataManager_encryptData h data w =
     (if sm_isEncryptionEnabled w \<and> sm_encryptionKey w \<noteq> None
      then (case SecurityManager_encryptData h data w of (p, w') \<Rightarrow> (Pending p, w'))
      else (Text (stringify h data), w))"

definition dataManager_decryptData :: "host \<Rightarrow> string \<Rightarrow> world \<Rightarrow> error + jsval" where
  "dataManager_decryptData h encryptedData w =
     (if sm_isEncryptionEnabled w \<and> sm_encryptionKey w \<noteq> None
      then Inr (PromiseObj [] (SecurityManager_decryptData h encryptedData w))
      else (case JSON_parse h encryptedData of
              None \<Rightarrow> Inl SyntaxError
            | Some v \<Rightarrow> Inr (Val v)))"

text \<open>
  \<open>DataManager.getData(key)\<close>. \<open>!data\<close> holds for a missing entry and for the empty
  string; whatever is thrown inside the \<open>try\<close> gives \<open>null\<close>.
\<close>

definition getData :: "host \<Rightarrow> string \<Rightarrow> world \<Rightarrow> jsval" where
  "getData h key w =
     (case getItem (localStorage w) (storagePrefix @ key) of
        None \<Rightarrow> Val JNull
      | Some data \<Rightarrow>
          if data = [] then Val JNull
          else if dm_isEncrypted w \<and> dm_encryptionKey w \<noteq> None
          then (case dataManager_decryptData h data w of
                  Inl e \<Rightarrow> Val JNull
                | Inr v \<Rightarrow> v)
          else (case JSON_parse h data of
                  None \<Rightarrow> Val JNull
                | Some v \<Rightarrow> Val v))"

text \<open>\<open>DataManager.setData(key, data)\<close>: \<open>false\<close> when \<open>setItem\<close> throws.\<close>

definition setData :: "host \<Rightarrow> string \<Rightarrow> jsval \<Rightarrow> world \<Rightarrow> bool \<times> world" where
  "setData h key data w =
     (case (if dm_isEncrypted w \<and> dm_encryptionKey w \<noteq> None
            then dataManager_encryptData h data w
            else (Text (stringify h data), w)) of
        (dataToStore, w1) \<Rightarrow>
          if setItem_throws h (localStorage w1) (storagePrefix @ key) (String_of dataToStore)
          then (False, w1)
          else (True, w1\<lparr>localStorage :=
                  setItem (localStorage w1) (storagePrefix @ key) (String_of dataToStore)\<rparr>))"

definition startsWith :: "string \<Rightarrow> string \<Rightarrow> bool" where
  "startsWith p s = (take (length p) s = p)"

text \<open>
  \<open>DataManager.getAllKeys()\<close>: \<open>key.replace(prefix, '')\<close> removes the first occurrence
  of the prefix, which is at the start of a key that starts with it.
\<close>

definition getAllKeys :: "world \<Rightarrow> string list" where
  "getAllKeys w =
     map (drop (length storagePrefix))
       (filter (startsWith storagePrefix) (map fst (localStorage w)))"

definition setEncryptionKey :: "cryptokey option \<Rightarrow> world \<Rightarrow> world" where
  "setEncryptionKey key w = w\<lparr>dm_encryptionKey := key, dm_isEncrypted := True\<rparr>"

definition removeEncryption :: "world \<Rightarrow> world" where
  "removeEncryption w = w\<lparr>dm_encryptionKey := None, dm_isEncrypted := False\<rparr>"

subsection \<open>Goals\<close>

text \<open>
  The identifier that \<open>this.generateId()\<close> returns and the timestamp that
  \<open>new Date().toISOString()\<close> returns are inputs of each operation. An operation that
  throws (\<open>Inl\<close>) has not reached \<open>setData\<close>, so it leaves the state as it was.
\<close>

text \<open>An array held in a property of \<open>data\<close> is mutated in place.\<close>

fun with_field :: "jsval \<Rightarrow> string \<Rightarrow> json \<Rightarrow> jsval" where
  "with_field (Val (JObj kvs)) k x = Val (JObj (AList.update k x kvs))"
| "with_field (PromiseObj ps p) k x = PromiseObj (AList.update k x ps) p"
| "with_field v k x = v"

fun set_prop :: "json \<Rightarrow> string \<Rightarrow> json \<Rightarrow> error + json" where
  "set_prop (JObj kvs) k x = Inr (JObj (AList.update k x kvs))"
| "set_prop (JArr xs) k x = Inr (JArr xs)"
| "set_prop v k x = Inl TypeError"

definition goals_default :: jsval where
  "goals_default = Val (JObj [(''goals'', JArr [])])"

definition addGoal :: "host \<Rightarrow> (string \<times> json) list \<Rightarrow> string \<Rightarrow> string \<Rightarrow> world \<Rightarrow> (error + bool) \<times> world" where
  "addGoal h goal newId created w =
     (let data = js_or (getData h ''goals'' w) goals_default
      in case get_field data ''goals'' of
           Inr (Some (JArr gs)) \<Rightarrow>
             (let g = JObj (AList.update ''created'' (JStr created)
                        (AList.update ''savingsDetails'' (JArr [])
                          (AList.update ''saved'' (JNum 0)
                            (AList.update ''id'' (JStr newId) goal))))
              in case setData h ''goals'' (with_field data ''goals'' (JArr (gs @ [g]))) w of
                   (ok, w') \<Rightarrow> (Inr ok, w'))
         | _ \<Rightarrow> (Inl TypeError, w))"

definition deleteGoal :: "host \<Rightarrow> json \<Rightarrow> world \<Rightarrow> (error + bool) \<times> world" where
  "deleteGoal h goalId w =
     (let data = js_or (getData h ''goals'' w) goals_default
      in case get_field data ''goals'' of
           Inr (Some (JArr gs)) \<Rightarrow>
             (case findIndex ''id'' (Some goalId) gs of
                Inl e \<Rightarrow> (Inl e, w)
              | Inr None \<Rightarrow> (Inr False, w)
              | Inr (Some goalIndex) \<Rightarrow>
                  (case setData h ''goals'' (with_field data ''goals'' (JArr (splice1 goalIndex gs))) w of
                     (ok, w') \<Rightarrow> (Inr ok, w')))
         | _ \<Rightarrow> (Inl TypeError, w))"

text \<open>
  \<open>savingsDetails.reduce((total, s) => total + s.amount, 0)\<close>. The goal object is only
  serialised after \<open>saved\<close> is assigned, so the property holds what \<open>JSON.stringify\<close>
  writes for the total.
\<close>

fun reduce_amounts :: "host \<Rightarrow> total \<Rightarrow> json list \<Rightarrow> error + total" where
  "reduce_amounts h acc [] = Inr acc"
| "reduce_amounts h acc (s # ss) =
     (case get_prop s ''amount'' of
        Inl e \<Rightarrow> Inl e
      | Inr a \<Rightarrow>
          (case ToPrimitive h a of
             Inl e \<Rightarrow> Inl e
           | Inr x \<Rightarrow> reduce_amounts h (js_plus h acc x) ss))"

definition updateGoalSavings :: "host \<Rightarrow> json \<Rightarrow> json list \<Rightarrow> string \<Rightarrow> world \<Rightarrow> (error + bool) \<times> world" where
  "updateGoalSavings h goalId savingsDetails lastUpdated w =
     (let data = js_or (getData h ''goals'' w) goals_default
      in case get_field data ''goals'' of
           Inr (Some (JArr gs)) \<Rightarrow>
             (case findIndex ''id'' (Some goalId) gs of
                Inl e \<Rightarrow> (Inl e, w)
              | Inr None \<Rightarrow> (Inr False, w)
              | Inr (Some goalIndex) \<Rightarrow>
                  (case set_prop (gs ! goalIndex) ''savingsDetails'' (JArr savingsDetails) of
                     Inl e \<Rightarrow> (Inl e, w)
                   | Inr g1 \<Rightarrow>
                       (case reduce_amounts h (TotalNumber (Number 0)) savingsDetails of
                          Inl e \<Rightarrow> (Inl e, w)
                        | Inr saved \<Rightarrow>
                            (case set_prop g1 ''saved'' (json_of_total saved) of
                               Inl e \<Rightarrow> (Inl e, w)
                             | Inr g2 \<Rightarrow>
                                 (case set_prop g2 ''lastUpdated'' (JStr lastUpdated) of
                                    Inl e \<Rightarrow> (Inl e, w)
                                  | Inr g3 \<Rightarrow>
                                      (case setData h ''goals''
                                              (with_field data ''goals'' (JArr (gs[goalIndex := g3]))) w of
                                         (ok, w') \<Rightarrow> (Inr ok, w')))))))
         | _ \<Rightarrow> (Inl TypeError, w))"

definition getGoals :: "host \<Rightarrow> world \<Rightarrow> error + json option" where
  "getGoals h w = get_field (js_or (getData h ''goals'' w) goals_default) ''goals''"

subsection \<open>Assets\<close>

definition assets_default :: jsval where
  "assets_default = Val (JObj [(''assets'', JArr []), (''history'', JArr [])])"

text \<open>
  \<open>DataManager.addAsset(asset)\<close>. \<open>id1\<close> and \<open>id2\<close> are the results of the first and of the
  second call of \<open>generateId\<close> (the update branch calls it once). \<open>addAsset_branch\<close> is
  the \<open>if (existingIndex !== -1) ... else ...\<close> of the method: the assets array and the
  history entry it builds.
\<close>

definition addAsset_branch :: "(string \<times> json) list \<Rightarrow> string \<Rightarrow> string \<Rightarrow> string \<Rightarrow> json list \<Rightarrow> nat option \<Rightarrow> error + json list \<times> json" where
  "addAsset_branch asset now id1 id2 as existing =
     (case existing of
        Some existingIndex \<Rightarrow>
          (case get_prop (as ! existingIndex) ''value'' of
             Inl e \<Rightarrow> Inl e
           | Inr oldValue \<Rightarrow>
               Inr (as[existingIndex := JObj (AList.update ''lastUpdated'' (JStr now) asset)],
                    JObj (obj_lit
                      [(''id'', Some (JStr id1)),
                       (''name'', map_of asset ''name''),
                       (''type'', map_of asset ''type''),
                       (''value'', map_of asset ''value''),
                       (''previousValue'', oldValue),
                       (''timestamp'', Some (JStr now)),
                       (''action'', Some (JStr ''update''))])))
      | None \<Rightarrow>
          Inr (as @ [JObj (AList.update ''lastUpdated'' (JStr now)
                       (AList.update ''created'' (JStr now)
                         (AList.update ''id'' (JStr id1) asset)))],
               JObj (obj_lit
                 [(''id'', Some (JStr id2)),
                  (''name'', map_of asset ''name''),
                  (''type'', map_of asset ''type''),
                  (''value'', map_of asset ''value''),
                  (''timestamp'', Some (JStr now)),
                  (''action'', Some (JStr ''create''))])))"

definition addAsset :: "host \<Rightarrow> (string \<times> json) list \<Rightarrow> string \<Rightarrow> string \<Rightarrow> string \<Rightarrow> world \<Rightarrow> (error + bool) \<times> world" where
  "addAsset h asset now id1 id2 w =
     (let data = js_or (getData h ''assets'' w) assets_default
      in case get_field data ''assets'' of
           Inr (Some (JArr as)) \<Rightarrow>
             (case findIndex ''name'' (map_of asset ''name'') as of
                Inl e \<Rightarrow> (Inl e, w)
              | Inr existing \<Rightarrow>
                  (case addAsset_branch asset now id1 id2 as existing of
                     Inl e \<Rightarrow> (Inl e, w)
                   | Inr (as', entry) \<Rightarrow>
                       (case get_field (with_field data ''assets'' (JArr as')) ''history'' of
                          Inr (Some (JArr hs)) \<Rightarrow>
                            (case setData h ''assets''
                                    (with_field (with_field data ''assets'' (JArr as'))
                                       ''history'' (JArr (hs @ [entry]))) w of
                               (ok, w') \<Rightarrow> (Inr ok, w'))
                        | _ \<Rightarrow> (Inl TypeError, w))))
         | _ \<Rightarrow> (Inl TypeError, w))"

definition deleteAsset :: "host \<Rightarrow> json \<Rightarrow> string \<Rightarrow> string \<Rightarrow> world \<Rightarrow> (error + bool) \<times> world" where
  "deleteAsset h assetName now newId w =
     (let data = js_or (getData h ''assets'' w) assets_default
      in case get_field data ''assets'' of
           Inr (Some (JArr as)) \<Rightarrow>
             (case findIndex ''name'' (Some assetName) as of
                Inl e \<Rightarrow> (Inl e, w)
              | Inr None \<Rightarrow> (Inr False, w)
              | Inr (Some assetIndex) \<Rightarrow>
                  (let deletedAsset = as ! assetIndex;
                       data1 = with_field data ''assets'' (JArr (splice1 assetIndex as))
                   in case get_field data1 ''history'' of
                        Inr (Some (JArr hs)) \<Rightarrow>
                          (case (get_prop deletedAsset ''name'', get_prop deletedAsset ''type'',
                                 get_prop deletedAsset ''value'') of
                             (Inr n, Inr t, Inr v) \<Rightarrow>
                               (case setData h ''assets''
                                       (with_field data1 ''history''
                                          (JArr (hs @ [JObj (obj_lit
                                             [(''id'', Some (JStr newId)),
                                              (''name'', n),
                                              (''type'', t),
                                              (''value'', v),
                                              (''timestamp'', Some (JStr now)),
                                              (''action'', Some (JStr ''delete''))])]))) w of
                                  (ok, w') \<Rightarrow> (Inr ok, w'))
                           | _ \<Rightarrow> (Inl TypeError, w))
                      | _ \<Rightarrow> (Inl TypeError, w)))
         | _ \<Rightarrow> (Inl TypeError, w))"

definition getAssets :: "host \<Rightarrow> world \<Rightarrow> error + json option" where
  "getAssets h w = get_field (js_or (getData h ''assets'' w) assets_default) ''assets''"

definition getAssetHistory :: "host \<Rightarrow> world \<Rightarrow> error + json option" where
  "getAssetHistory h w = get_field (js_or (getData h ''assets'' w) assets_default) ''history''"

section \<open>security.js: the Security Session\<close>

definition showAlert :: "string \<Rightarrow> string \<Rightarrow> world \<Rightarrow> world" where
  "showAlert message type w = w\<lparr>alerts := alerts w @ [(message, type)]\<rparr>"

definition lockApp :: "world \<Rightarrow> world" where
  "lockApp w = w\<lparr>locked := True\<rparr>"

text \<open>
  \<open>SecurityManager.verifyPassword(key)\<close>: the candidate key is put into
  \<open>this.encryptionKey\<close> for the trial decryption of the stored settings; the line that
  puts the previous key back is skipped when the decryption throws.
\<close>

definition verifyPassword :: "host \<Rightarrow> cryptokey \<Rightarrow> world \<Rightarrow> bool \<times> world" where
  "verifyPassword h key w =
     (case getItem (localStorage w) ''financeTracker_settings'' of
        None \<Rightarrow> (True, w)
      | Some encryptedSettings \<Rightarrow>
          if encryptedSettings = [] then (True, w)
          else (let tempKey = sm_encryptionKey w;
                    w1 = w\<lparr>sm_encryptionKey := Some key\<rparr>
                in case SecurityManager_decryptData h encryptedSettings w1 of
                     Promise (Inr v) \<Rightarrow> (True, w1\<lparr>sm_encryptionKey := tempKey\<rparr>)
                   | Promise (Inl e) \<Rightarrow> (False, w1)))"

text \<open>\<open>SecurityManager.reencryptAllData()\<close>: the loop over \<open>dataManager.getAllKeys()\<close>.\<close>

fun reencrypt_each :: "host \<Rightarrow> string list \<Rightarrow> world \<Rightarrow> world" where
  "reencrypt_each h [] w = w"
| "reencrypt_each h (key # keys) w =
     (let data = getData h key w
      in reencrypt_each h keys (if truthy data then snd (setData h key data w) else w))"

definition reencryptAllData :: "host \<Rightarrow> world \<Rightarrow> world" where
  "reencryptAllData h w = reencrypt_each h (getAllKeys w) w"

text \<open>\<open>SecurityManager.decryptAllData()\<close>\<close>

fun decrypt_each :: "host \<Rightarrow> cryptokey option \<Rightarrow> string list \<Rightarrow> world \<Rightarrow> world" where
  "decrypt_each h tempKey [] w = w"
| "decrypt_each h tempKey (key # keys) w =
     (case getItem (localStorage w) (''financeTracker_'' @ key) of
        None \<Rightarrow> decrypt_each h tempKey keys w
      | Some rawData \<Rightarrow>
          if rawData = [] then decrypt_each h tempKey keys w
          else (let w1 = w\<lparr>sm_encryptionKey := tempKey\<rparr>
                in case SecurityManager_decryptData h rawData w1 of
                     Promise (Inl e) \<Rightarrow> decrypt_each h tempKey keys w1
                   | Promise (Inr decryptedData) \<Rightarrow>
                       decrypt_each h tempKey keys
                         (snd (setData h key (Val decryptedData) (w1\<lparr>sm_encryptionKey := None\<rparr>)))))"

definition decryptAllData :: "host \<Rightarrow> world \<Rightarrow> world" where
  "decryptAllData h w =
     (let keys = getAllKeys w;
          tempKey = sm_encryptionKey w
      in decrypt_each h tempKey keys (removeEncryption w))"

text \<open>
  The flows take the answers of the password prompts as arguments: \<open>None\<close> is a
  cancelled prompt, \<open>Some p\<close> the text that was confirmed. \<open>!password\<close> holds for a
  cancelled prompt and for the empty text.

  \<open>SecurityManager.enableEncryption()\<close>
\<close>

definition enableEncryption :: "host \<Rightarrow> string option \<Rightarrow> string option \<Rightarrow> world \<Rightarrow> world" where
  "enableEncryption h answer1 answer2 w =
     (case answer1 of
        None \<Rightarrow> w
      | Some password \<Rightarrow>
          if password = [] then w
          else if Some password \<noteq> answer2 then showAlert ''Passwords do not match!'' ''error'' w
          else (case deriveKey h password w of
                  (key, w1) \<Rightarrow>
                    (let w2 = w1\<lparr>sm_encryptionKey := Some key\<rparr>;
                         w3 = reencryptAllData h w2;
                         settings = js_or (getData h ''settings'' w3) (Val (JObj []))
                     in case set_field settings ''encryptionEnabled'' (JBool True) of
                          Inl e \<Rightarrow>
                            showAlert ''Failed to enable encryption. Please try again.'' ''error'' w3
                        | Inr settings' \<Rightarrow>
                            (let w4 = snd (setData h ''settings'' settings' w3);
                                 w5 = setEncryptionKey (sm_encryptionKey w4) w4;
                                 w6 = w5\<lparr>sm_isEncryptionEnabled := True\<rparr>
                             in showAlert ''Encryption enabled successfully!'' ''success'' w6))))"

text \<open>\<open>SecurityManager.disableEncryption()\<close>\<close>

definition disableEncryption :: "host \<Rightarrow> string option \<Rightarrow> world \<Rightarrow> world" where
  "disableEncryption h answer w =
     (case answer of
        None \<Rightarrow> w
      | Some password \<Rightarrow>
          if password = [] then w
          else (case deriveKey h password w of
                  (key, w1) \<Rightarrow>
                    (case verifyPassword h key w1 of
                       (False, w2) \<Rightarrow> showAlert ''Incorrect password!'' ''error'' w2
                     | (True, w2) \<Rightarrow>
                         (let w3 = decryptAllData h w2;
                              settings = js_or (getData h ''settings'' w3) (Val (JObj []))
                          in case set_field settings ''encryptionEnabled'' (JBool False) of
                               Inl e \<Rightarrow>
                                 showAlert ''Failed to disable encryption. Please check your password.''
                                   ''error'' w3
                             | Inr settings' \<Rightarrow>
                                 (let w4 = snd (setData h ''settings'' settings' w3);
                                      w5 = removeEncryption w4;
                                      w6 = w5\<lparr>sm_isEncryptionEnabled := False, sm_encryptionKey := None\<rparr>
                                  in showAlert ''Encryption disabled successfully!'' ''success'' w6)))))"

definition toggleEncryption :: "host \<Rightarrow> string option \<Rightarrow> string option \<Rightarrow> world \<Rightarrow> world" where
  "toggleEncryption h answer1 answer2 w =
     (if \<not> sm_isEncryptionEnabled w then enableEncryption h answer1 answer2 w
      else disableEncryption h answer1 w)"

text \<open>
  \<open>SecurityManager.requestPassword()\<close>: the loop \<open>while (attempts < maxAttempts)\<close> with
  \<open>maxAttempts = 3\<close>, over the answers of the successive prompts. When the answers run
  out the flow is waiting at a prompt.
\<close>

datatype unlock = Unlocked | AppLocked | AwaitingPassword

definition remaining_text :: "nat \<Rightarrow> string" where
  "remaining_text n = [char_of (48 + n)]"

fun requestPassword_from :: "host \<Rightarrow> nat \<Rightarrow> string option list \<Rightarrow> world \<Rightarrow> unlock \<times> world" where
  "requestPassword_from h attempts [] w =
     (if attempts < 3 then (AwaitingPassword, w) else (AppLocked, lockApp w))"
| "requestPassword_from h attempts (answer # answers) w =
     (if attempts < 3
      then (case answer of
              None \<Rightarrow> (AppLocked, lockApp w)
            | Some password \<Rightarrow>
                if password = [] then (AppLocked, lockApp w)
                else (case deriveKey h password w of
                        (key, w1) \<Rightarrow>
                          (case verifyPassword h key w1 of
                             (True, w2) \<Rightarrow>
                               (Unlocked, setEncryptionKey (Some key) (w2\<lparr>sm_encryptionKey := Some key\<rparr>))
                           | (False, w2) \<Rightarrow>
                               requestPassword_from h (Suc attempts) answers
                                 (showAlert
                                    (''Incorrect password. '' @ remaining_text (3 - Suc attempts)
                                       @ '' attempts remaining.'')
                                    ''error'' w2))))
      else (AppLocked, lockApp w))"

definition requestPassword :: "host \<Rightarrow> string option list \<Rightarrow> world \<Rightarrow> unlock \<times> world" where
  "requestPassword h answers w = requestPassword_from h 0 answers w"

section \<open>Properties of the record sets\<close>

text \<open>
  The Record Store encrypts when both objects hold a key: \<open>setData\<close> and \<open>getData\<close>
  test \<open>dataManager.isEncrypted && dataManager.encryptionKey\<close>, and the replaced
  \<open>encryptData\<close> and \<open>decryptData\<close> test
  \<open>securityManager.isEncryptionEnabled && securityManager.encryptionKey\<close>.

  A goal is consistent when its \<open>saved\<close> field is a number, its \<open>savingsDetails\<close> is a
  list whose entries all have a numeric \<open>amount\<close>, and \<open>saved\<close> is the sum of those
  amounts as doubles are added: from \<open>0\<close>, left to right, every partial sum rounded
  (\<open>float_sum\<close>). \<open>saved_is_exact_sum\<close> is the same with the sum taken in exact
  arithmetic. The goals RecordSet is consistent when every goal that \<open>getGoals()\<close>
  returns is. A sequence of operations is a list of calls with their arguments.
\<close>

definition encrypting :: "world \<Rightarrow> bool" where
  "encrypting w =
     (dm_isEncrypted w \<and> dm_encryptionKey w \<noteq> None
      \<and> sm_isEncryptionEnabled w \<and> sm_encryptionKey w \<noteq> None)"

definition has_amount :: "json \<Rightarrow> bool" where
  "has_amount s = (case get_prop s ''amount'' of Inr (Some (JNum a)) \<Rightarrow> True | _ \<Rightarrow> False)"

definition amount :: "json \<Rightarrow> rat" where
  "amount s = (case get_prop s ''amount'' of Inr (Some (JNum a)) \<Rightarrow> a | _ \<Rightarrow> 0)"

definition float_sum :: "rat list \<Rightarrow> jsnumber" where
  "float_sum xs = foldl (\<lambda>t a. Number_add t (Number a)) (Number 0) xs"

text \<open>A rational is a double when rounding leaves it as it is.\<close>

definition is_double :: "rat \<Rightarrow> bool" where
  "is_double q = (round_double q = Number q)"

fun finite_number :: "jsnumber \<Rightarrow> bool" where
  "finite_number (Number q) = True"
| "finite_number n = False"

definition goal_consistent :: "json \<Rightarrow> bool" where
  "goal_consistent g =
     (case get_prop g ''saved'' of
        Inr (Some (JNum saved)) \<Rightarrow>
          (case get_prop g ''savingsDetails'' of
             Inr (Some (JArr details)) \<Rightarrow>
               list_all has_amount details \<and> float_sum (map amount details) = Number saved
           | _ \<Rightarrow> False)
      | _ \<Rightarrow> False)"

definition saved_is_exact_sum :: "json \<Rightarrow> bool" where
  "saved_is_exact_sum g =
     (case get_prop g ''saved'' of
        Inr (Some (JNum saved)) \<Rightarrow>
          (case get_prop g ''savingsDetails'' of
             Inr (Some (JArr details)) \<Rightarrow>
               list_all has_amount details \<and> saved = sum_list (map amount details)
           | _ \<Rightarrow> False)
      | _ \<Rightarrow> False)"

definition goals_saved_consistent :: "host \<Rightarrow> world \<Rightarrow> bool" where
  "goals_saved_consistent h w =
     (case getGoals h w of
        Inr (Some (JArr gs)) \<Rightarrow> list_all goal_consistent gs
      | _ \<Rightarrow> True)"

datatype goal_op =
    AddGoal "(string \<times> json) list" string string
  | DeleteGoal json
  | UpdateGoalSavings json "json list" string

fun goal_step :: "host \<Rightarrow> goal_op \<Rightarrow> world \<Rightarrow> world" where
  "goal_step h (AddGoal goal newId created) w = snd (addGoal h goal newId created w)"
| "goal_step h (DeleteGoal goalId) w = snd (deleteGoal h goalId w)"
| "goal_step h (UpdateGoalSavings goalId savingsDetails lastUpdated) w =
     snd (updateGoalSavings h goalId savingsDetails lastUpdated w)"

definition run_goal_ops :: "host \<Rightarrow> goal_op list \<Rightarrow> world \<Rightarrow> world" where
  "run_goal_ops h ops w = fold (goal_step h) ops w"

fun goal_op_ok :: "goal_op \<Rightarrow> bool" where
  "goal_op_ok (AddGoal goal newId created) = wf_json (JObj goal)"
| "goal_op_ok (DeleteGoal goalId) = True"
| "goal_op_ok (UpdateGoalSavings goalId savingsDetails lastUpdated) =
     (list_all has_amount savingsDetails \<and> wf_json (JArr savingsDetails)
      \<and> finite_number (float_sum (map amount savingsDetails)))"

text \<open>
  The name of an asset is its \<open>name\<close> property. The names of the assets RecordSet are
  unique when the list that \<open>getAssets()\<close> returns has no two entries with the same name.
\<close>

definition asset_name :: "json \<Rightarrow> error + json option" where
  "asset_name a = get_prop a ''name''"

definition names_unique :: "host \<Rightarrow> world \<Rightarrow> bool" where
  "names_unique h w =
     (case getAssets h w of
        Inr (Some (JArr as)) \<Rightarrow> distinct (map asset_name as)
      | _ \<Rightarrow> True)"

datatype asset_op =
    AddAsset "(string \<times> json) list" string string string
  | DeleteAsset json string string

fun asset_step :: "host \<Rightarrow> asset_op \<Rightarrow> world \<Rightarrow> world" where
  "asset_step h (AddAsset asset now id1 id2) w = snd (addAsset h asset now id1 id2 w)"
| "asset_step h (DeleteAsset assetName now newId) w = snd (deleteAsset h assetName now newId w)"

definition run_asset_ops :: "host \<Rightarrow> asset_op list \<Rightarrow> world \<Rightarrow> world" where
  "run_asset_ops h ops w = fold (asset_step h) ops w"

fun asset_op_ok :: "asset_op \<Rightarrow> bool" where
  "asset_op_ok (AddAsset asset now id1 id2) =
     (wf_json (JObj asset) \<and> (case map_of asset ''name'' of Some (JStr n) \<Rightarrow> True | _ \<Rightarrow> False))"
| "asset_op_ok (DeleteAsset assetName now newId) = True"

section \<open>A sample host\<close>

text \<open>
  A small executable host, used to show that the assumptions made about the host in the
  theorems below can be met together: a prefix code for JSON values in place of JSON
  text, a cipher that tags the ciphertext with the key, and a one-to-one byte/text
  coding. It is not the browser; no theorem about the program depends on it.
\<close>

fun enc_nat :: "nat \<Rightarrow> string" where
  "enc_nat n = replicate n CHR ''1'' @ ''0''"

fun dec_nat :: "string \<Rightarrow> (nat \<times> string) option" where
  "dec_nat [] = None"
| "dec_nat (c # cs) =
     (if c = CHR ''0'' then Some (0, cs)
      else if c = CHR ''1'' then (case dec_nat cs of None \<Rightarrow> None | Some (n, r) \<Rightarrow> Some (Suc n, r))
      else None)"

definition enc_str :: "string \<Rightarrow> string" where
  "enc_str s = enc_nat (length s) @ s"

definition dec_str :: "string \<Rightarrow> (string \<times> string) option" where
  "dec_str x = (case dec_nat x of None \<Rightarrow> None
     | Some (n, r) \<Rightarrow> if n \<le> length r then Some (take n r, drop n r) else None)"

definition enc_rat :: "rat \<Rightarrow> string" where
  "enc_rat q = (case quotient_of q of (a, b) \<Rightarrow>
      (if a < 0 then ''-'' else ''+'') @ enc_nat (nat \<bar>a\<bar>) @ enc_nat (nat b))"

definition dec_rat :: "string \<Rightarrow> (rat \<times> string) option" where
  "dec_rat x = (case x of [] \<Rightarrow> None
     | c # cs \<Rightarrow> (case dec_nat cs of None \<Rightarrow> None
        | Some (a, r) \<Rightarrow> (case dec_nat r of None \<Rightarrow> None
           | Some (b, r') \<Rightarrow>
               Some (if c = CHR ''-'' then - Fract (int a) (int b) else Fract (int a) (int b), r'))))"

fun sample_stringify :: "json \<Rightarrow> string" where
  "sample_stringify JNull = ''n''"
| "sample_stringify (JBool b) = (if b then ''t'' else ''f'')"
| "sample_stringify (JNum q) = CHR ''#'' # enc_rat q"
| "sample_stringify (JStr s) = CHR ''s'' # enc_str s"
| "sample_stringify (JArr xs) = CHR ''['' # enc_nat (length xs) @ concat (map sample_stringify xs)"
| "sample_stringify (JObj kvs) =
     CHR ''{'' # enc_nat (length kvs) @ concat (map (\<lambda>kv. enc_str (fst kv) @ sample_stringify (snd kv)) kvs)"

fun sample_dec :: "nat \<Rightarrow> string \<Rightarrow> (json \<times> string) option"
and sample_dec_list :: "nat \<Rightarrow> nat \<Rightarrow> string \<Rightarrow> (json list \<times> string) option"
and sample_dec_props :: "nat \<Rightarrow> nat \<Rightarrow> string \<Rightarrow> ((string \<times> json) list \<times> string) option"
where
  "sample_dec 0 s = None"
| "sample_dec (Suc f) [] = None"
| "sample_dec (Suc f) (c # cs) =
     (if c = CHR ''n'' then Some (JNull, cs)
      else if c = CHR ''t'' then Some (JBool True, cs)
      else if c = CHR ''f'' then Some (JBool False, cs)
      else if c = CHR ''#'' then (case dec_rat cs of None \<Rightarrow> None | Some (q, r) \<Rightarrow> Some (JNum q, r))
      else if c = CHR ''s'' then (case dec_str cs of None \<Rightarrow> None | Some (s, r) \<Rightarrow> Some (JStr s, r))
      else if c = CHR ''['' then
        (case dec_nat cs of None \<Rightarrow> None
         | Some (n, r) \<Rightarrow> (case sample_dec_list f n r of None \<Rightarrow> None | Some (xs, r') \<Rightarrow> Some (JArr xs, r')))
      else if c = CHR ''{'' then
        (case dec_nat cs of None \<Rightarrow> None
         | Some (n, r) \<Rightarrow> (case sample_dec_props f n r of None \<Rightarrow> None | Some (kvs, r') \<Rightarrow> Some (JObj kvs, r')))
      else None)"
| "sample_dec_list f 0 s = Some ([], s)"
| "sample_dec_list f (Suc n) s =
     (case sample_dec f s of None \<Rightarrow> None
      | Some (x, r) \<Rightarrow> (case sample_dec_list f n r of None \<Rightarrow> None | Some (xs, r') \<Rightarrow> Some (x # xs, r')))"
| "sample_dec_props f 0 s = Some ([], s)"
| "sample_dec_props f (Suc n) s =
     (case dec_str s of None \<Rightarrow> None
      | Some (k, r0) \<Rightarrow>
         (case sample_dec f r0 of None \<Rightarrow> None
          | Some (x, r) \<Rightarrow> (case sample_dec_props f n r of None \<Rightarrow> None | Some (kvs, r') \<Rightarrow> Some ((k, x) # kvs, r'))))"

definition sample_parse :: "string \<Rightarrow> json option" where
  "sample_parse s =
     (case sample_dec (length s) s of
        Some (v, []) \<Rightarrow> if wf_json v then Some v else None
      | _ \<Rightarrow> None)"

definition sample_encode :: "string \<Rightarrow> bytes" where
  "sample_encode s = map (\<lambda>c. of_nat (of_char c)) s"

definition sample_decode :: "bytes \<Rightarrow> string" where
  "sample_decode bs = map (\<lambda>b. char_of (unat b)) bs"

definition sample_btoa :: "bytes \<Rightarrow> string" where
  "sample_btoa bs = CHR ''='' # sample_decode bs"

definition sample_atob :: "string \<Rightarrow> bytes option" where
  "sample_atob s = (case s of [] \<Rightarrow> None | c # cs \<Rightarrow> if c = CHR ''='' then Some (sample_encode cs) else None)"

fun sample_encrypt :: "cryptokey \<Rightarrow> bytes \<Rightarrow> bytes \<Rightarrow> bytes" where
  "sample_encrypt (CryptoKey k) iv p = replicate k 1 @ 0 # p"

fun sample_decrypt :: "cryptokey \<Rightarrow> bytes \<Rightarrow> bytes \<Rightarrow> bytes option" where
  "sample_decrypt (CryptoKey k) iv c =
     (if take (Suc k) c = replicate k 1 @ [0] then Some (drop (Suc k) c) else None)"

definition sample_deriveKey :: "bytes \<Rightarrow> bytes \<Rightarrow> nat \<Rightarrow> string \<Rightarrow> nat \<Rightarrow> cryptokey" where
  "sample_deriveKey passwordBuffer salt iterations hash len = CryptoKey (length passwordBuffer)"

definition sample_random :: "nat \<Rightarrow> bytes" where
  "sample_random n = replicate 12 (of_nat n)"

definition sample_host :: host where
  "sample_host =
     \<lparr>JSON_stringify = sample_stringify,
      JSON_parse = sample_parse,
      TextEncoder_encode = sample_encode,
      TextDecoder_decode = sample_decode,
      subtle_deriveKey = sample_deriveKey,
      subtle_encrypt = sample_encrypt,
      subtle_decrypt = sample_decrypt,
      getRandomValues = sample_random,
      btoa_bytes = sample_btoa,
      atob_bytes = sample_atob,
      setItem_throws = (\<lambda>ls k v. False),
      Number_toString = enc_rat\<rparr>"

text \<open>
  Two states for the examples: a store in plaintext with no key, and a session after
  encryption was enabled, with the key installed in both objects.
\<close>

definition sample_key :: cryptokey where
  "sample_key = CryptoKey 2"

definition sample_assets :: json where
  "sample_assets = JObj [(''assets'', JArr []), (''history'', JArr [])]"

definition sample_settings :: "bool \<Rightarrow> json" where
  "sample_settings b = JObj [(''theme'', JStr ''light''), (''encryptionEnabled'', JBool b)]"

definition plain_world :: world where
  "plain_world =
     \<lparr>localStorage =
        [(''financeTracker_assets'', sample_stringify sample_assets),
         (''financeTracker_settings'', sample_stringify (sample_settings False))],
      dm_encryptionKey = None, dm_isEncrypted = False,
      sm_isEncryptionEnabled = False, sm_encryptionKey = None,
      alerts = [], locked = False, iv_draws = 0, kdf_calls = 0\<rparr>"

definition encrypted_world :: world where
  "encrypted_world =
     \<lparr>localStorage =
        [(''financeTracker_assets'', sample_stringify sample_assets),
         (''financeTracker_settings'', sample_stringify (sample_settings True))],
      dm_encryptionKey = Some sample_key, dm_isEncrypted = True,
      sm_isEncryptionEnabled = True, sm_encryptionKey = Some sample_key,
      alerts = [], locked = False, iv_draws = 0, kdf_calls = 0\<rparr>"

text \<open>
  The envelope the sample host makes for a value under a key with the first nonce, and
  the state at startup of a session whose stored settings are such an envelope.
\<close>

definition sample_envelope :: "cryptokey \<Rightarrow> json \<Rightarrow> string" where
  "sample_envelope k v =
     sample_btoa (sample_random 0 @ sample_encrypt k (sample_random 0) (sample_encode (sample_stringify v)))"

definition startup_world :: world where
  "startup_world =
     \<lparr>localStorage =
        [(''financeTracker_settings'', sample_envelope (CryptoKey 6) (sample_settings True))],
      dm_encryptionKey = None, dm_isEncrypted = False,
      sm_isEncryptionEnabled = True, sm_encryptionKey = None,
      alerts = [], locked = False, iv_draws = 0, kdf_calls = 0\<rparr>"

text \<open>A goal, a list of savings and a sequence of goal operations for the examples.\<close>

definition sample_goal :: "(string \<times> json) list" where
  "sample_goal = [(''name'', JStr ''Car''), (''amount'', JNum 1000)]"

definition sample_savings :: "json list" where
  "sample_savings = [JObj [(''amount'', JNum 5)], JObj [(''amount'', JNum 7)]]"

text \<open>
  Two lists of savings whose sum is not a double: \<open>2^53 + 1\<close> lies between two doubles,
  and \<open>2^1023 + 2^1023\<close> is beyond the largest one.
\<close>

definition sample_rounding_savings :: "json list" where
  "sample_rounding_savings = [JObj [(''amount'', JNum (2 ^ 53))], JObj [(''amount'', JNum 1)]]"

definition sample_overflow_savings :: "json list" where
  "sample_overflow_savings =
     [JObj [(''amount'', JNum (2 ^ 1023))], JObj [(''amount'', JNum (2 ^ 1023))]]"

text \<open>
  A goal is added and its savings are set to a given list; the goal as it is stored
  afterwards.
\<close>

definition sample_update_ops :: "json list \<Rightarrow> goal_op list" where
  "sample_update_ops ds =
     [AddGoal sample_goal ''g1'' ''t0'', UpdateGoalSavings (JStr ''g1'') ds ''t1'']"

definition sample_updated_goal :: "json list \<Rightarrow> json" where
  "sample_updated_goal ds =
     JObj [(''name'', JStr ''Car''), (''amount'', JNum 1000), (''id'', JStr ''g1''),
           (''saved'', json_of_total (TotalNumber (float_sum (map amount ds)))),
           (''savingsDetails'', JArr ds), (''created'', JStr ''t0''),
           (''lastUpdated'', JStr ''t1'')]"

definition sample_goal_ops :: "goal_op list" where
  "sample_goal_ops =
     [AddGoal sample_goal ''g1'' ''t0'',
      UpdateGoalSavings (JStr ''g1'') sample_savings ''t1'',
      AddGoal sample_goal ''g2'' ''t2'',
      DeleteGoal (JStr ''g2'')]"

text \<open>Assets, a sequence of asset operations and the history it leaves, for the examples.\<close>

definition sample_cash :: "rat \<Rightarrow> (string \<times> json) list" where
  "sample_cash v = [(''name'', JStr ''Cash''), (''type'', JStr ''Savings''), (''value'', JNum v)]"

definition sample_gold :: "(string \<times> json) list" where
  "sample_gold = [(''name'', JStr ''Gold''), (''type'', JStr ''Metal''), (''value'', JNum 50)]"

definition sample_asset_ops :: "asset_op list" where
  "sample_asset_ops =
     [AddAsset (sample_cash 1000) ''t0'' ''a1'' ''h1'',
      AddAsset (sample_cash 1500) ''t1'' ''h2'' ''unused'',
      AddAsset sample_gold ''t2'' ''a3'' ''h3'',
      DeleteAsset (JStr ''Cash'') ''t3'' ''h4'']"

definition sample_history :: "json list" where
  "sample_history =
     [JObj [(''id'', JStr ''h1''), (''name'', JStr ''Cash''), (''type'', JStr ''Savings''),
            (''value'', JNum 1000), (''timestamp'', JStr ''t0''), (''action'', JStr ''create'')],
      JObj [(''id'', JStr ''h2''), (''name'', JStr ''Cash''), (''type'', JStr ''Savings''),
            (''value'', JNum 1500), (''previousValue'', JNum 1000), (''timestamp'', JStr ''t1''),
            (''action'', JStr ''update'')],
      JObj [(''id'', JStr ''h3''), (''name'', JStr ''Gold''), (''type'', JStr ''Metal''),
            (''value'', JNum 50), (''timestamp'', JStr ''t2''), (''action'', JStr ''create'')],
      JObj [(''id'', JStr ''h4''), (''name'', JStr ''Cash''), (''type'', JStr ''Savings''),
            (''value'', JNum 1500), (''timestamp'', JStr ''t3''), (''action'', JStr ''delete'')]]"

section \<open>Assumptions on the host\<close>

text \<open>
  \<open>JSON.parse\<close> inverts \<open>JSON.stringify\<close> on well-formed values, the output of
  \<open>JSON.stringify\<close> is never empty and what \<open>JSON.parse\<close> returns is well formed;
  \<open>atob\<close> inverts
  \<open>btoa\<close>; a nonce has 12 bytes; and AES-GCM authenticates: what one key encrypted,
  another key does not decrypt.
\<close>

definition json_roundtrip :: "host \<Rightarrow> bool" where
  "json_roundtrip h =
     ((\<forall>v. wf_json v \<longrightarrow> JSON_parse h (JSON_stringify h v) = Some v \<and> JSON_stringify h v \<noteq> [])
      \<and> (\<forall>s v. JSON_parse h s = Some v \<longrightarrow> wf_json v))"

definition base64_roundtrip :: "host \<Rightarrow> bool" where
  "base64_roundtrip h = (\<forall>bs. atob_bytes h (btoa_bytes h bs) = Some bs)"

definition nonce_length :: "host \<Rightarrow> bool" where
  "nonce_length h = (\<forall>n. length (getRandomValues h n) = 12)"

definition authenticated_cipher :: "host \<Rightarrow> bool" where
  "authenticated_cipher h =
     (\<forall>k1 k2 iv p. k1 \<noteq> k2 \<longrightarrow> subtle_decrypt h k2 iv (subtle_encrypt h k1 iv p) = None)"

section \<open>Well-formed values\<close>

lemma key_order_no_index: "list_all (\<lambda>k. \<not> array_index k) ks \<Longrightarrow> key_order ks"
  by (cases ks) (simp_all add: key_order_def)

lemma key_order_snoc:
  assumes "key_order ks" and "\<not> array_index k"
  shows "key_order (ks @ [k])"
proof (cases "\<forall>x \<in> set ks. array_index x")
  case True
  then have tw: "takeWhile array_index ks = ks"
    by (simp add: takeWhile_eq_all_conv)
  have t: "takeWhile array_index (ks @ [k]) = ks"
    using True assms(2) by (simp add: takeWhile_append2)
  have d: "dropWhile array_index (ks @ [k]) = [k]"
    using True assms(2) by (simp add: dropWhile_append2)
  have "sorted_wrt (\<lambda>a b. index_value a < index_value b) ks"
    using assms(1) unfolding key_order_def tw by simp
  then show ?thesis
    unfolding key_order_def t d using assms(2) by simp
next
  case False
  then obtain x where x: "x \<in> set ks" "\<not> array_index x" by blast
  then have "takeWhile array_index (ks @ [k]) = takeWhile array_index ks"
    "dropWhile array_index (ks @ [k]) = dropWhile array_index ks @ [k]"
    by (simp_all add: takeWhile_append1 dropWhile_append1)
  then show ?thesis using assms by (simp add: key_order_def)
qed

lemma wf_update:
  assumes "wf_json (JObj kvs)" and "wf_json x" and "\<not> array_index k"
  shows "wf_json (JObj (AList.update k x kvs))"
proof -
  have d: "distinct (map fst (AList.update k x kvs))"
    using assms(1) by (simp add: distinct_update)
  have keys: "map fst (AList.update k x kvs) =
      (if k \<in> set (map fst kvs) then map fst kvs else map fst kvs @ [k])"
    by (rule update_keys)
  have o: "key_order (map fst (AList.update k x kvs))"
    using assms(1,3) unfolding keys by (simp add: key_order_snoc)
  have "set (AList.update k x kvs) \<subseteq> insert (k, x) (set kvs)"
    by (induction kvs) auto
  then have "\<forall>kv \<in> set (AList.update k x kvs). wf_json (snd kv)"
    using assms(1,2) by auto
  then show ?thesis using d o by simp
qed

lemma wf_lookup: "wf_json (JObj kvs) \<Longrightarrow> map_of kvs k = Some x \<Longrightarrow> wf_json x"
  by (auto dest: map_of_SomeD)

lemma wf_nth: "wf_json (JArr xs) \<Longrightarrow> i < length xs \<Longrightarrow> wf_json (xs ! i)"
  by simp

lemma wf_list_update: "wf_json (JArr xs) \<Longrightarrow> wf_json y \<Longrightarrow> wf_json (JArr (xs[i := y]))"
  using set_update_subset_insert [of xs i y] by auto

lemma wf_append1: "wf_json (JArr xs) \<Longrightarrow> wf_json y \<Longrightarrow> wf_json (JArr (xs @ [y]))"
  by simp

lemma wf_splice1: "wf_json (JArr xs) \<Longrightarrow> wf_json (JArr (splice1 i xs))"
  by (auto simp add: splice1_def dest: in_set_takeD in_set_dropD)

lemma not_index_names [simp]:
  "\<not> array_index ''goals''" "\<not> array_index ''assets''" "\<not> array_index ''history''"
  "\<not> array_index ''id''" "\<not> array_index ''saved''" "\<not> array_index ''savingsDetails''"
  "\<not> array_index ''created''" "\<not> array_index ''lastUpdated''"
  "\<not> array_index ''name''" "\<not> array_index ''type''" "\<not> array_index ''value''"
  "\<not> array_index ''previousValue''" "\<not> array_index ''timestamp''" "\<not> array_index ''action''"
  "\<not> array_index ''encryptionEnabled''" "\<not> array_index ''theme''" "\<not> array_index ''amount''"
  by (simp_all add: array_index_def digit_def)

lemma wf_obj_lit:
  assumes "distinct (map fst kvs)" and "list_all (\<lambda>k. \<not> array_index k) (map fst kvs)"
    and "\<forall>kv \<in> set kvs. \<forall>v. snd kv = Some v \<longrightarrow> wf_json v"
  shows "wf_json (JObj (obj_lit kvs))"
proof -
  have sub: "set (map fst (obj_lit kvs)) \<subseteq> set (map fst kvs)" for kvs :: "(string \<times> json option) list"
    by (induction kvs rule: obj_lit.induct) auto
  have d: "distinct (map fst kvs) \<Longrightarrow> distinct (map fst (obj_lit kvs))"
    for kvs :: "(string \<times> json option) list"
  proof (induction kvs rule: obj_lit.induct)
    case (3 k v kvs)
    then show ?case using sub [of kvs] by auto
  qed simp_all
  have "list_all (\<lambda>k. \<not> array_index k) (map fst (obj_lit kvs))"
    using assms(2) sub [of kvs] by (fastforce simp add: list_all_iff)
  then have o: "key_order (map fst (obj_lit kvs))" by (rule key_order_no_index)
  have "\<forall>kv \<in> set (obj_lit kvs). (fst kv, Some (snd kv)) \<in> set kvs"
    by (induction kvs rule: obj_lit.induct) auto
  then have "\<forall>kv \<in> set (obj_lit kvs). wf_json (snd kv)"
    using assms(3) by fastforce
  then show ?thesis using d [OF assms(1)] o by simp
qed

section \<open>Facts about the sample host\<close>

lemma dec_enc_nat: "dec_nat (enc_nat n @ r) = Some (n, r)"
  by (induction n) auto

lemma dec_enc_str: "dec_str (enc_str s @ r) = Some (s, r)"
  unfolding dec_str_def enc_str_def by (simp add: dec_enc_nat del: enc_nat.simps)

lemma dec_enc_rat: "dec_rat (enc_rat q @ r) = Some (q, r)"
proof -
  obtain a b where ab: "quotient_of q = (a, b)" by (cases "quotient_of q")
  then have b: "b > 0" and q: "q = Fract a b"
    using quotient_of_denom_pos quotient_of_div Fract_of_int_quotient by auto
  show ?thesis
  proof (cases "a < 0")
    case True
    then have "- Fract (int (nat \<bar>a\<bar>)) (int (nat b)) = Fract a b" using b by simp
    then show ?thesis using True ab q
      unfolding dec_rat_def enc_rat_def by (simp add: dec_enc_nat del: enc_nat.simps)
  next
    case False
    then have "Fract (int (nat \<bar>a\<bar>)) (int (nat b)) = Fract a b" using b by simp
    then show ?thesis using False ab q
      unfolding dec_rat_def enc_rat_def by (simp add: dec_enc_nat del: enc_nat.simps)
  qed
qed

lemma dec_list_enc:
  assumes "\<And>x f r. x \<in> set xs \<Longrightarrow> length (sample_stringify x) \<le> f \<Longrightarrow> sample_dec f (sample_stringify x @ r) = Some (x, r)"
    and "\<forall>x \<in> set xs. length (sample_stringify x) \<le> f"
  shows "sample_dec_list f (length xs) (concat (map sample_stringify xs) @ r) = Some (xs, r)"
  using assms by (induction xs arbitrary: r) auto

lemma dec_props_enc:
  assumes "\<And>k x f r. (k, x) \<in> set kvs \<Longrightarrow> length (sample_stringify x) \<le> f \<Longrightarrow> sample_dec f (sample_stringify x @ r) = Some (x, r)"
    and "\<forall>kv \<in> set kvs. length (sample_stringify (snd kv)) \<le> f"
  shows "sample_dec_props f (length kvs) (concat (map (\<lambda>kv. enc_str (fst kv) @ sample_stringify (snd kv)) kvs) @ r) = Some (kvs, r)"
  using assms
proof (induction kvs arbitrary: r)
  case Nil
  then show ?case by simp
next
  case (Cons kv kvs)
  obtain k x where kv: "kv = (k, x)" by (cases kv)
  have len: "length (sample_stringify x) \<le> f" using Cons.prems(2) kv by simp
  have head: "\<And>r. sample_dec f (sample_stringify x @ r) = Some (x, r)"
    using Cons.prems(1) [of k x f] len kv by simp
  have tail: "\<And>r. sample_dec_props f (length kvs)
      (concat (map (\<lambda>kv. enc_str (fst kv) @ sample_stringify (snd kv)) kvs) @ r) = Some (kvs, r)"
  proof -
    fix r
    have "\<And>k x f r. (k, x) \<in> set kvs \<Longrightarrow> length (sample_stringify x) \<le> f
        \<Longrightarrow> sample_dec f (sample_stringify x @ r) = Some (x, r)"
    proof -
      fix k x f r
      assume "(k, x) \<in> set kvs" and "length (sample_stringify x) \<le> f"
      then show "sample_dec f (sample_stringify x @ r) = Some (x, r)"
        using Cons.prems(1) [of k x f r] by simp
    qed
    moreover have "\<forall>kv \<in> set kvs. length (sample_stringify (snd kv)) \<le> f"
      using Cons.prems(2) by simp
    ultimately show "sample_dec_props f (length kvs)
      (concat (map (\<lambda>kv. enc_str (fst kv) @ sample_stringify (snd kv)) kvs) @ r) = Some (kvs, r)"
      by (rule Cons.IH)
  qed
  show ?case unfolding kv by (simp add: dec_enc_str head tail)
qed

lemma length_concat_ge: "x \<in> set xs \<Longrightarrow> length (g x) \<le> length (concat (map g xs))"
  by (induction xs) auto

lemma sample_dec_enc: "length (sample_stringify v) \<le> f \<Longrightarrow> sample_dec f (sample_stringify v @ r) = Some (v, r)"
proof (induction v arbitrary: f r)
  case JNull
  then show ?case by (cases f) auto
next
  case (JBool b)
  then show ?case by (cases f; cases b) auto
next
  case (JNum q)
  then show ?case by (cases f) (auto simp: dec_enc_rat)
next
  case (JStr s)
  then show ?case by (cases f) (auto simp: dec_enc_str)
next
  case (JArr xs)
  then obtain f' where f: "f = Suc f'" by (cases f) auto
  have "\<forall>x \<in> set xs. length (sample_stringify x) \<le> f'"
  proof
    fix x assume "x \<in> set xs"
    then have "length (sample_stringify x) \<le> length (concat (map sample_stringify xs))"
      by (rule length_concat_ge)
    then show "length (sample_stringify x) \<le> f'" using JArr.prems f by simp
  qed
  then have "sample_dec_list f' (length xs) (concat (map sample_stringify xs) @ r) = Some (xs, r)"
    using JArr.IH by (intro dec_list_enc) auto
  then show ?case unfolding f by (simp add: dec_enc_nat del: enc_nat.simps)
next
  case (JObj kvs)
  then obtain f' where f: "f = Suc f'" by (cases f) auto
  have "\<forall>kv \<in> set kvs. length (sample_stringify (snd kv)) \<le> f'"
  proof
    fix kv assume "kv \<in> set kvs"
    then have "length (enc_str (fst kv) @ sample_stringify (snd kv))
       \<le> length (concat (map (\<lambda>kv. enc_str (fst kv) @ sample_stringify (snd kv)) kvs))"
      by (rule length_concat_ge)
    then show "length (sample_stringify (snd kv)) \<le> f'" using JObj.prems f by simp
  qed
  moreover have "\<And>k x f r. (k, x) \<in> set kvs \<Longrightarrow> length (sample_stringify x) \<le> f \<Longrightarrow> sample_dec f (sample_stringify x @ r) = Some (x, r)"
    using JObj.IH by fastforce
  ultimately have "sample_dec_props f' (length kvs) (concat (map (\<lambda>kv. enc_str (fst kv) @ sample_stringify (snd kv)) kvs) @ r) = Some (kvs, r)"
    by (intro dec_props_enc) auto
  then show ?case unfolding f by (simp add: dec_enc_nat del: enc_nat.simps)
qed

lemma sample_parse_stringify: "wf_json v \<Longrightarrow> sample_parse (sample_stringify v) = Some v"
  using sample_dec_enc [of v "length (sample_stringify v)" "[]"] by (simp add: sample_parse_def)

lemma sample_parse_wf: "sample_parse s = Some v \<Longrightarrow> wf_json v"
  by (auto simp add: sample_parse_def split: option.splits list.splits if_splits)

lemma sample_wf [simp]: "wf_json sample_assets" "wf_json (sample_settings b)"
  by (simp_all add: sample_assets_def sample_settings_def key_order_def)

lemma sample_stringify_nonempty: "sample_stringify v \<noteq> []"
  by (cases v) auto

lemma sample_decode_encode: "sample_decode (sample_encode s) = s"
  by (simp add: sample_decode_def sample_encode_def comp_def unat_of_nat map_idI)

lemma sample_encode_decode: "sample_encode (sample_decode bs) = bs"
proof -
  have "\<And>b :: 8 word. unat b mod 256 = unat b"
  proof -
    fix b :: "8 word"
    have "unat b < 2 ^ LENGTH(8)" by (rule unsigned_less)
    then show "unat b mod 256 = unat b" by simp
  qed
  then show ?thesis
    by (simp add: sample_decode_def sample_encode_def comp_def map_idI)
qed

lemma sample_atob_btoa: "sample_atob (sample_btoa bs) = Some bs"
  by (simp add: sample_atob_def sample_btoa_def sample_encode_decode)

lemma sample_decrypt_encrypt: "sample_decrypt k iv (sample_encrypt k iv p) = Some p"
  by (cases k) simp

lemma sample_wrong_key: "k1 \<noteq> k2 \<Longrightarrow> sample_decrypt k2 iv (sample_encrypt k1 iv p) = None"
proof (cases k1, cases k2)
  fix a b assume k: "k1 = CryptoKey a" "k2 = CryptoKey b" and ne: "k1 \<noteq> k2"
  have ab: "a \<noteq> b" using k ne by simp
  have "take (Suc b) (replicate a (1::8 word) @ 0 # p) \<noteq> replicate b 1 @ [0]"
  proof
    assume eq: "take (Suc b) (replicate a (1::8 word) @ 0 # p) = replicate b 1 @ [0]"
    show False
    proof (cases "a < b")
      case True
      have "(take (Suc b) (replicate a (1::8 word) @ 0 # p)) ! a = 0"
        using True by (simp add: nth_append)
      moreover have "(replicate b (1::8 word) @ [0]) ! a = 1"
        using True by (simp add: nth_append)
      ultimately show False using eq by simp
    next
      case False
      then have lt: "b < a" using ab by simp
      have "take (Suc b) (replicate a (1::8 word) @ 0 # p) = replicate (Suc b) 1"
        using lt by (simp add: min_def)
      then have "(take (Suc b) (replicate a (1::8 word) @ 0 # p)) ! b = 1"
        by (simp del: replicate_Suc)
      moreover have "(replicate b (1::8 word) @ [0]) ! b = 0"
        by (simp add: nth_append)
      ultimately show False using eq by simp
    qed
  qed
  then show ?thesis using k by simp
qed


lemma sample_json_roundtrip: "json_roundtrip sample_host"
  by (auto simp add: json_roundtrip_def sample_host_def sample_parse_stringify
      sample_stringify_nonempty sample_parse_wf)

lemma sample_base64_roundtrip: "base64_roundtrip sample_host"
  by (simp add: base64_roundtrip_def sample_host_def sample_atob_btoa)

lemma sample_nonce_length: "nonce_length sample_host"
  by (simp add: nonce_length_def sample_host_def sample_random_def)

lemma sample_authenticated_cipher: "authenticated_cipher sample_host"
  by (simp add: authenticated_cipher_def sample_host_def sample_wrong_key)

section \<open>Key derivation is a function of the password\<close>

text \<open>
  C7. Key derivation is deterministic: the key that \<open>deriveKey\<close> returns is PBKDF2 of the
  password bytes with the fixed application-wide salt, 100000 iterations, SHA-256 and a
  256-bit key, whatever the state of the session, so two calls with the same password
  give the same key; the call changes nothing but the count of derivations.
\<close>

theorem deriveKey_deterministic:
  "fst (deriveKey h password w1) = fst (deriveKey h password w2)
   \<and> fst (deriveKey h password w1) =
       subtle_deriveKey h (TextEncoder_encode h password)
         (TextEncoder_encode h ''finance-tracker-salt-2023'') 100000 ''SHA-256'' 256
   \<and> snd (deriveKey h password w1) = w1\<lparr>kdf_calls := Suc (kdf_calls w1)\<rparr>"
  by (simp add: deriveKey_def deriveKey_salt_def)

section \<open>The Record Store\<close>

lemma sample_host_fields [simp]:
  "JSON_stringify sample_host = sample_stringify"
  "JSON_parse sample_host = sample_parse"
  "TextEncoder_encode sample_host = sample_encode"
  "TextDecoder_decode sample_host = sample_decode"
  "subtle_deriveKey sample_host = sample_deriveKey"
  "subtle_encrypt sample_host = sample_encrypt"
  "subtle_decrypt sample_host = sample_decrypt"
  "getRandomValues sample_host = sample_random"
  "btoa_bytes sample_host = sample_btoa"
  "atob_bytes sample_host = sample_atob"
  "setItem_throws sample_host = (\<lambda>ls k v. False)"
  "Number_toString sample_host = enc_rat"
  by (simp_all add: sample_host_def)

lemma getItem_setItem: "getItem (setItem ls k v) k' = (if k' = k then Some v else getItem ls k')"
  by (simp add: getItem_def setItem_def update_conv')

lemma getData_absent: "getItem (localStorage w) (storagePrefix @ name) = None \<Longrightarrow> getData h name w = Val JNull"
  by (simp add: getData_def)

lemma getData_plain_unparseable:
  "\<not> (dm_isEncrypted w \<and> dm_encryptionKey w \<noteq> None) \<Longrightarrow>
   getItem (localStorage w) (storagePrefix @ name) = Some data \<Longrightarrow> JSON_parse h data = None \<Longrightarrow>
   getData h name w = Val JNull"
  by (auto simp add: getData_def)

lemma showAlert_fields [simp]:
  "localStorage (showAlert m t w) = localStorage w"
  "dm_encryptionKey (showAlert m t w) = dm_encryptionKey w"
  "dm_isEncrypted (showAlert m t w) = dm_isEncrypted w"
  "sm_encryptionKey (showAlert m t w) = sm_encryptionKey w"
  "sm_isEncryptionEnabled (showAlert m t w) = sm_isEncryptionEnabled w"
  "kdf_calls (showAlert m t w) = kdf_calls w"
  "iv_draws (showAlert m t w) = iv_draws w"
  "locked (showAlert m t w) = locked w"
  "alerts (showAlert m t w) = alerts w @ [(m, t)]"
  by (simp_all add: showAlert_def)

lemma getData_fields:
  assumes "localStorage w = localStorage w0"
    and "dm_isEncrypted w = dm_isEncrypted w0" and "dm_encryptionKey w = dm_encryptionKey w0"
    and "sm_isEncryptionEnabled w = sm_isEncryptionEnabled w0"
    and "sm_encryptionKey w = sm_encryptionKey w0"
  shows "getData h k w = getData h k w0"
  unfolding getData_def dataManager_decryptData_def SecurityManager_decryptData_def assms ..

lemma getData_showAlert [simp]: "getData h k (showAlert m t w) = getData h k w"
  by (rule getData_fields) simp_all

text \<open>
  In plaintext mode \<open>setData\<close> followed by \<open>getData\<close> gives the value back.
\<close>

lemma setData_getData_plain:
  assumes "\<not> (dm_isEncrypted w \<and> dm_encryptionKey w \<noteq> None)"
    and "JSON_parse h (JSON_stringify h V) = Some V" and "JSON_stringify h V \<noteq> []"
    and "fst (setData h name (Val V) w)"
  shows "getData h name (snd (setData h name (Val V) w)) = Val V"
  using assms by (auto simp add: setData_def getData_def getItem_setItem split: if_splits)

text \<open>
  C1. The round-trip law of the Record Store fails once a key is installed. With the key
  in both objects, \<open>setData(name, V)\<close> stores the text of a pending promise,
  \<open>[object Promise]\<close>, whatever \<open>V\<close> is, because the replaced \<open>encryptData\<close> returns the
  promise of an \<open>async\<close> method; and \<open>getData(name)\<close> then returns the promise of the
  decryption of that text, not \<open>V\<close>. (Without a key the law holds:
  \<open>setData_getData_plain\<close>.)
\<close>

theorem setData_getData_encrypted:
  assumes "dm_isEncrypted w" and "dm_encryptionKey w \<noteq> None"
    and "sm_isEncryptionEnabled w" and "sm_encryptionKey w \<noteq> None"
    and "fst (setData h name (Val V) w)" and "w' = snd (setData h name (Val V) w)"
  shows "getItem (localStorage w') (storagePrefix @ name) = Some ''[object Promise]''
       \<and> getData h name w' = PromiseObj [] (SecurityManager_decryptData h ''[object Promise]'' w')
       \<and> getData h name w' \<noteq> Val V"
proof -
  obtain k where k: "sm_encryptionKey w = Some k" using assms(4) by auto
  let ?w1 = "w\<lparr>iv_draws := Suc (iv_draws w)\<rparr>"
  have enc: "dataManager_encryptData h (Val V) w =
      (Pending (Promise (Inr (btoa_bytes h (getRandomValues h (iv_draws w)
          @ subtle_encrypt h k (getRandomValues h (iv_draws w))
              (TextEncoder_encode h (JSON_stringify h V)))))), ?w1)"
    using assms(3) k by (simp add: dataManager_encryptData_def SecurityManager_encryptData_def Let_def)
  have w': "w' = ?w1\<lparr>localStorage := setItem (localStorage w) (storagePrefix @ name) ''[object Promise]''\<rparr>"
    using assms(1,2,5,6) enc by (simp add: setData_def String_of_promise_def split: if_splits)
  have item: "getItem (localStorage w') (storagePrefix @ name) = Some ''[object Promise]''"
    by (simp add: w' getItem_setItem)
  have get: "getData h name w' = PromiseObj [] (SecurityManager_decryptData h ''[object Promise]'' w')"
    using assms(1-4) item by (simp add: getData_def dataManager_decryptData_def w')
  show ?thesis using item get by simp
qed

theorem setData_getData_encrypted_witness:
  "dm_isEncrypted encrypted_world \<and> dm_encryptionKey encrypted_world \<noteq> None
   \<and> sm_isEncryptionEnabled encrypted_world \<and> sm_encryptionKey encrypted_world \<noteq> None
   \<and> fst (setData sample_host ''assets'' (Val sample_assets) encrypted_world)
   \<and> getItem (localStorage (snd (setData sample_host ''assets'' (Val sample_assets) encrypted_world)))
        ''financeTracker_assets'' = Some ''[object Promise]''
   \<and> getData sample_host ''assets'' (snd (setData sample_host ''assets'' (Val sample_assets) encrypted_world))
        = PromiseObj [] (Promise (Inl (Error ''Failed to decrypt data'')))
   \<and> getData sample_host ''assets'' (snd (setData sample_host ''assets'' (Val sample_assets) encrypted_world))
        \<noteq> Val sample_assets"
proof -
  have a: "dm_isEncrypted encrypted_world" "dm_encryptionKey encrypted_world \<noteq> None"
    "sm_isEncryptionEnabled encrypted_world" "sm_encryptionKey encrypted_world \<noteq> None"
    by (simp_all add: encrypted_world_def)
  have b: "fst (setData sample_host ''assets'' (Val sample_assets) encrypted_world)"
    by (simp add: setData_def dataManager_encryptData_def SecurityManager_encryptData_def
        encrypted_world_def Let_def)
  have c: "sm_encryptionKey (snd (setData sample_host ''assets'' (Val sample_assets) encrypted_world))
      = Some sample_key"
    by (simp add: setData_def dataManager_encryptData_def SecurityManager_encryptData_def
        encrypted_world_def Let_def)
  have d: "SecurityManager_decryptData sample_host ''[object Promise]''
      (snd (setData sample_host ''assets'' (Val sample_assets) encrypted_world))
      = Promise (Inl (Error ''Failed to decrypt data''))"
    by (simp add: SecurityManager_decryptData_def c sample_atob_def)
  show ?thesis
    using setData_getData_encrypted [OF a b refl] a b d
    by (simp add: storagePrefix_def)
qed


text \<open>
  C6. The read path does not fail softly when a key is installed: for a stored entry
  whose decryption fails, \<open>getData\<close> returns a promise that rejects, not \<open>null\<close>; its
  \<open>try\<close> cannot catch the rejection of a promise it does not await. (A missing entry and,
  without a key, an entry that does not parse do give \<open>null\<close>: \<open>getData_absent\<close>,
  \<open>getData_plain_unparseable\<close>.)
\<close>

theorem getData_decryption_failure_not_null:
  assumes "dm_isEncrypted w" and "dm_encryptionKey w \<noteq> None"
    and "sm_isEncryptionEnabled w" and "sm_encryptionKey w \<noteq> None"
    and "getItem (localStorage w) (storagePrefix @ name) = Some data" and "data \<noteq> []"
    and "SecurityManager_decryptData h data w = Promise (Inl e)"
  shows "getData h name w = PromiseObj [] (Promise (Inl e)) \<and> getData h name w \<noteq> Val JNull"
  using assms by (simp add: getData_def dataManager_decryptData_def)

theorem getData_decryption_failure_not_null_witness:
  "dm_isEncrypted encrypted_world \<and> dm_encryptionKey encrypted_world \<noteq> None
   \<and> sm_isEncryptionEnabled encrypted_world \<and> sm_encryptionKey encrypted_world \<noteq> None
   \<and> getItem (localStorage encrypted_world) (storagePrefix @ ''settings'')
        = Some (sample_stringify (sample_settings True))
   \<and> sample_stringify (sample_settings True) \<noteq> []
   \<and> SecurityManager_decryptData sample_host (sample_stringify (sample_settings True)) encrypted_world
        = Promise (Inl (Error ''Failed to decrypt data''))
   \<and> getData sample_host ''settings'' encrypted_world
        = PromiseObj [] (Promise (Inl (Error ''Failed to decrypt data'')))
   \<and> getData sample_host ''settings'' encrypted_world \<noteq> Val JNull"
proof -
  have a: "dm_isEncrypted encrypted_world" "dm_encryptionKey encrypted_world \<noteq> None"
    "sm_isEncryptionEnabled encrypted_world" "sm_encryptionKey encrypted_world \<noteq> None"
    by (simp_all add: encrypted_world_def)
  have b: "getItem (localStorage encrypted_world) (storagePrefix @ ''settings'')
        = Some (sample_stringify (sample_settings True))"
    by (simp add: encrypted_world_def getItem_def storagePrefix_def)
  have c: "sample_stringify (sample_settings True) \<noteq> []"
    by (rule sample_stringify_nonempty)
  have d: "SecurityManager_decryptData sample_host (sample_stringify (sample_settings True)) encrypted_world
        = Promise (Inl (Error ''Failed to decrypt data''))"
    by (simp add: SecurityManager_decryptData_def encrypted_world_def sample_settings_def sample_atob_def)
  show ?thesis
    using getData_decryption_failure_not_null [OF a b c d] a b c d by simp
qed

section \<open>The Security Session\<close>

text \<open>
  C8. A confirmation that differs from the password aborts the enable flow: no key is
  derived, no entry of the store changes, no key is installed in either object, the
  enabled flag and the stored settings are as before; only the mismatch alert is shown
  (and nothing at all happens for the empty password).
\<close>

theorem enableEncryption_mismatch_aborts:
  assumes "Some password \<noteq> confirmation" and "w' = enableEncryption h (Some password) confirmation w"
  shows "w' = (if password = [] then w else showAlert ''Passwords do not match!'' ''error'' w)
       \<and> localStorage w' = localStorage w
       \<and> dm_encryptionKey w' = dm_encryptionKey w \<and> dm_isEncrypted w' = dm_isEncrypted w
       \<and> sm_encryptionKey w' = sm_encryptionKey w \<and> sm_isEncryptionEnabled w' = sm_isEncryptionEnabled w
       \<and> kdf_calls w' = kdf_calls w \<and> iv_draws w' = iv_draws w
       \<and> getData h ''settings'' w' = getData h ''settings'' w"
  using assms
  by (simp add: enableEncryption_def)

theorem enableEncryption_mismatch_aborts_witness:
  "Some ''X'' \<noteq> Some ''Y''
   \<and> enableEncryption sample_host (Some ''X'') (Some ''Y'') plain_world
       = showAlert ''Passwords do not match!'' ''error'' plain_world
   \<and> localStorage (enableEncryption sample_host (Some ''X'') (Some ''Y'') plain_world)
       = localStorage plain_world
   \<and> dm_encryptionKey (enableEncryption sample_host (Some ''X'') (Some ''Y'') plain_world) = None
   \<and> kdf_calls (enableEncryption sample_host (Some ''X'') (Some ''Y'') plain_world) = 0
   \<and> getData sample_host ''settings'' (enableEncryption sample_host (Some ''X'') (Some ''Y'') plain_world)
       = Val (sample_settings False)"
proof -
  have a: "Some ''X'' \<noteq> Some ''Y''" by simp
  have b: "getData sample_host ''settings'' plain_world = Val (sample_settings False)"
    by (simp add: getData_def plain_world_def getItem_def storagePrefix_def
        sample_parse_stringify sample_stringify_nonempty)
  have c: "dm_encryptionKey plain_world = None" "kdf_calls plain_world = 0"
    by (simp_all add: plain_world_def)
  show ?thesis
    using enableEncryption_mismatch_aborts [OF a refl, of sample_host plain_world] b c by simp
qed


lemma deriveKey_fst: "fst (deriveKey h p w) = fst (deriveKey h p w0)"
  by (simp add: deriveKey_def)

lemma deriveKey_snd: "snd (deriveKey h p w) = w\<lparr>kdf_calls := Suc (kdf_calls w)\<rparr>"
  by (simp add: deriveKey_def)

lemma verifyPassword_fst_storage:
  "localStorage w = localStorage w0 \<Longrightarrow> fst (verifyPassword h k w) = fst (verifyPassword h k w0)"
  by (simp add: verifyPassword_def SecurityManager_decryptData_def Let_def
      split: option.splits promise.splits sum.splits)

lemma verifyPassword_fail_state:
  "\<not> fst (verifyPassword h k w) \<Longrightarrow> snd (verifyPassword h k w) = w\<lparr>sm_encryptionKey := Some k\<rparr>"
  by (simp add: verifyPassword_def Let_def split: option.splits promise.splits sum.splits if_splits)

lemma verifyPassword_ok_state:
  "fst (verifyPassword h k w) \<Longrightarrow> snd (verifyPassword h k w) = w"
  by (simp add: verifyPassword_def Let_def split: option.splits promise.splits sum.splits if_splits)

text \<open>
  C3. A failed verification in the disable flow does change the session: the store, the
  persisted flag and the key installed in the Record Store are as before, but
  \<open>this.encryptionKey\<close> of the Security Session is left holding the key derived from the
  rejected password, because \<open>verifyPassword\<close> restores the previous key only after a
  decryption that succeeds.
\<close>

theorem disableEncryption_failed_verification:
  assumes "password \<noteq> []"
    and "\<not> fst (verifyPassword h (fst (deriveKey h password w)) (snd (deriveKey h password w)))"
    and "w' = disableEncryption h (Some password) w"
  shows "localStorage w' = localStorage w
       \<and> dm_encryptionKey w' = dm_encryptionKey w \<and> dm_isEncrypted w' = dm_isEncrypted w
       \<and> sm_isEncryptionEnabled w' = sm_isEncryptionEnabled w
       \<and> sm_encryptionKey w' = Some (fst (deriveKey h password w))"
proof -
  obtain key w1 where d: "deriveKey h password w = (key, w1)" by (cases "deriveKey h password w")
  have w1: "w1 = w\<lparr>kdf_calls := Suc (kdf_calls w)\<rparr>" using d by (auto simp add: deriveKey_def Let_def)
  have nv: "\<not> fst (verifyPassword h key w1)" using assms(2) d by simp
  then have v: "verifyPassword h key w1 = (False, w1\<lparr>sm_encryptionKey := Some key\<rparr>)"
    using verifyPassword_fail_state [OF nv] by (cases "verifyPassword h key w1") simp
  have "w' = showAlert ''Incorrect password!'' ''error'' (w1\<lparr>sm_encryptionKey := Some key\<rparr>)"
    using assms(1,3) d v by (simp add: disableEncryption_def)
  then show ?thesis using d w1 by simp
qed

lemma sample_derive [simp]: "fst (deriveKey sample_host p w) = CryptoKey (length p)"
  by (simp add: deriveKey_def sample_deriveKey_def sample_encode_def)

lemma sample_plain_settings_rejected:
  "localStorage w = localStorage encrypted_world \<Longrightarrow> \<not> fst (verifyPassword sample_host k w)"
  by (simp add: verifyPassword_def encrypted_world_def getItem_def sample_settings_def
      SecurityManager_decryptData_def sample_atob_def Let_def)

theorem disableEncryption_failed_verification_witness:
  "''wrong'' \<noteq> []
   \<and> \<not> fst (verifyPassword sample_host (fst (deriveKey sample_host ''wrong'' encrypted_world))
            (snd (deriveKey sample_host ''wrong'' encrypted_world)))
   \<and> localStorage (disableEncryption sample_host (Some ''wrong'') encrypted_world)
       = localStorage encrypted_world
   \<and> dm_encryptionKey (disableEncryption sample_host (Some ''wrong'') encrypted_world)
       = Some (CryptoKey 2)
   \<and> sm_encryptionKey encrypted_world = Some (CryptoKey 2)
   \<and> sm_encryptionKey (disableEncryption sample_host (Some ''wrong'') encrypted_world)
       = Some (CryptoKey 5)"
proof -
  have a: "''wrong'' \<noteq> []" by simp
  have b: "\<not> fst (verifyPassword sample_host (fst (deriveKey sample_host ''wrong'' encrypted_world))
            (snd (deriveKey sample_host ''wrong'' encrypted_world)))"
    by (rule sample_plain_settings_rejected) (simp add: deriveKey_snd)
  have c: "sm_encryptionKey encrypted_world = Some (CryptoKey 2)"
    "dm_encryptionKey encrypted_world = Some (CryptoKey 2)"
    by (simp_all add: encrypted_world_def sample_key_def)
  show ?thesis
    using disableEncryption_failed_verification [OF a b refl] a b c by simp
qed

lemma requestPassword_from_fail:
  assumes "attempts < 3" and "p \<noteq> []" and "\<not> fst (verifyPassword h (fst (deriveKey h p w)) w)"
  shows "requestPassword_from h attempts (Some p # answers) w =
     requestPassword_from h (Suc attempts) answers
       (showAlert (''Incorrect password. '' @ remaining_text (3 - Suc attempts) @ '' attempts remaining.'')
          ''error''
          (w\<lparr>kdf_calls := Suc (kdf_calls w), sm_encryptionKey := Some (fst (deriveKey h p w))\<rparr>))"
proof -
  obtain key w1 where d: "deriveKey h p w = (key, w1)" by (cases "deriveKey h p w")
  have w1: "w1 = w\<lparr>kdf_calls := Suc (kdf_calls w)\<rparr>" using d deriveKey_snd [of h p w] by simp
  have "fst (verifyPassword h key w1) = fst (verifyPassword h key w)"
    by (rule verifyPassword_fst_storage) (simp add: w1)
  then have nv: "\<not> fst (verifyPassword h key w1)" using assms(3) d by simp
  have v: "verifyPassword h key w1 = (False, w1\<lparr>sm_encryptionKey := Some key\<rparr>)"
    using verifyPassword_fail_state [OF nv] nv by (cases "verifyPassword h key w1") simp
  show ?thesis using assms(1,2) d v by (simp add: w1)
qed

lemma requestPassword_from_ok:
  assumes "attempts < 3" and "p \<noteq> []" and "fst (verifyPassword h (fst (deriveKey h p w)) w)"
  shows "requestPassword_from h attempts (Some p # answers) w =
     (Unlocked, setEncryptionKey (Some (fst (deriveKey h p w)))
        (w\<lparr>kdf_calls := Suc (kdf_calls w), sm_encryptionKey := Some (fst (deriveKey h p w))\<rparr>))"
proof -
  obtain key w1 where d: "deriveKey h p w = (key, w1)" by (cases "deriveKey h p w")
  have w1: "w1 = w\<lparr>kdf_calls := Suc (kdf_calls w)\<rparr>" using d deriveKey_snd [of h p w] by simp
  have "fst (verifyPassword h key w1) = fst (verifyPassword h key w)"
    by (rule verifyPassword_fst_storage) (simp add: w1)
  then have ok: "fst (verifyPassword h key w1)" using assms(3) d by simp
  have v: "verifyPassword h key w1 = (True, w1)"
    using verifyPassword_ok_state [OF ok] ok by (cases "verifyPassword h key w1") simp
  show ?thesis using assms(1,2) d v by (simp add: w1)
qed

text \<open>
  C4. The lockout boundary of startup unlock. After two failed attempts, a third password
  that fails locks the application (the terminal state), with no key installed in the
  Record Store; a third password whose key verifies is accepted: the key is installed in
  the Record Store and in the session, and the application is not locked. After only two
  failures the flow is at its third prompt, not locked. Whatever is answered after the
  third attempt plays no part.
\<close>

theorem requestPassword_lockout_boundary:
  assumes "p1 \<noteq> []" and "p2 \<noteq> []" and "p3 \<noteq> []"
    and "\<not> fst (verifyPassword h (fst (deriveKey h p1 w)) w)"
    and "\<not> fst (verifyPassword h (fst (deriveKey h p2 w)) w)"
  shows "(\<not> fst (verifyPassword h (fst (deriveKey h p3 w)) w) \<longrightarrow>
            fst (requestPassword h (Some p1 # Some p2 # Some p3 # later) w) = AppLocked
          \<and> locked (snd (requestPassword h (Some p1 # Some p2 # Some p3 # later) w))
          \<and> dm_encryptionKey (snd (requestPassword h (Some p1 # Some p2 # Some p3 # later) w))
              = dm_encryptionKey w
          \<and> dm_isEncrypted (snd (requestPassword h (Some p1 # Some p2 # Some p3 # later) w))
              = dm_isEncrypted w)
       \<and> (fst (verifyPassword h (fst (deriveKey h p3 w)) w) \<longrightarrow>
            fst (requestPassword h (Some p1 # Some p2 # Some p3 # later) w) = Unlocked
          \<and> dm_encryptionKey (snd (requestPassword h (Some p1 # Some p2 # Some p3 # later) w))
              = Some (fst (deriveKey h p3 w))
          \<and> dm_isEncrypted (snd (requestPassword h (Some p1 # Some p2 # Some p3 # later) w))
          \<and> sm_encryptionKey (snd (requestPassword h (Some p1 # Some p2 # Some p3 # later) w))
              = Some (fst (deriveKey h p3 w))
          \<and> locked (snd (requestPassword h (Some p1 # Some p2 # Some p3 # later) w)) = locked w)
       \<and> fst (requestPassword h [Some p1, Some p2] w) = AwaitingPassword
       \<and> locked (snd (requestPassword h [Some p1, Some p2] w)) = locked w"
proof -
  define wa where "wa = showAlert (''Incorrect password. '' @ remaining_text (3 - Suc 0) @ '' attempts remaining.'')
      ''error'' (w\<lparr>kdf_calls := Suc (kdf_calls w), sm_encryptionKey := Some (fst (deriveKey h p1 w))\<rparr>)"
  define wb where "wb = showAlert (''Incorrect password. '' @ remaining_text (3 - Suc 1) @ '' attempts remaining.'')
      ''error'' (wa\<lparr>kdf_calls := Suc (kdf_calls wa), sm_encryptionKey := Some (fst (deriveKey h p2 wa))\<rparr>)"
  define wc where "wc = showAlert (''Incorrect password. '' @ remaining_text (3 - Suc 2) @ '' attempts remaining.'')
      ''error'' (wb\<lparr>kdf_calls := Suc (kdf_calls wb), sm_encryptionKey := Some (fst (deriveKey h p3 wb))\<rparr>)"
  have sa: "localStorage wa = localStorage w" "locked wa = locked w"
    "dm_encryptionKey wa = dm_encryptionKey w" "dm_isEncrypted wa = dm_isEncrypted w"
    by (simp_all add: wa_def)
  have sb: "localStorage wb = localStorage w" "locked wb = locked w"
    "dm_encryptionKey wb = dm_encryptionKey w" "dm_isEncrypted wb = dm_isEncrypted w"
    by (simp_all add: wb_def sa)
  have sc: "locked wc = locked w"
    "dm_encryptionKey wc = dm_encryptionKey w" "dm_isEncrypted wc = dm_isEncrypted w"
    by (simp_all add: wc_def sb)
  have v2: "fst (verifyPassword h (fst (deriveKey h p2 wa)) wa) = fst (verifyPassword h (fst (deriveKey h p2 w)) w)"
    using verifyPassword_fst_storage [OF sa(1)] deriveKey_fst [of h p2 wa w] by simp
  have v3: "fst (verifyPassword h (fst (deriveKey h p3 wb)) wb) = fst (verifyPassword h (fst (deriveKey h p3 w)) w)"
    using verifyPassword_fst_storage [OF sb(1)] deriveKey_fst [of h p3 wb w] by simp
  have k3: "fst (deriveKey h p3 wb) = fst (deriveKey h p3 w)" by (rule deriveKey_fst)
  have step1: "requestPassword_from h 0 (Some p1 # answers) w = requestPassword_from h (Suc 0) answers wa" for answers
    unfolding wa_def using requestPassword_from_fail [of 0 p1 h w answers] assms(1,4) by simp
  have step2: "requestPassword_from h (Suc 0) (Some p2 # answers) wa
      = requestPassword_from h (Suc (Suc 0)) answers wb" for answers
    unfolding wb_def using requestPassword_from_fail [of "Suc 0" p2 h wa answers] assms(2,5) v2
    by simp
  have step3: "\<not> fst (verifyPassword h (fst (deriveKey h p3 w)) w) \<Longrightarrow>
      requestPassword_from h (Suc (Suc 0)) (Some p3 # later) wb
        = requestPassword_from h (Suc (Suc (Suc 0))) later wc"
    unfolding wc_def using requestPassword_from_fail [of "Suc (Suc 0)" p3 h wb later] assms(3) v3
    by (simp add: numeral_2_eq_2)
  have done3: "requestPassword_from h (Suc (Suc (Suc 0))) later wc = (AppLocked, lockApp wc)"
    by (cases later) simp_all
  have ok3: "fst (verifyPassword h (fst (deriveKey h p3 w)) w) \<Longrightarrow>
      requestPassword_from h (Suc (Suc 0)) (Some p3 # later) wb =
        (Unlocked, setEncryptionKey (Some (fst (deriveKey h p3 w)))
           (wb\<lparr>kdf_calls := Suc (kdf_calls wb), sm_encryptionKey := Some (fst (deriveKey h p3 w))\<rparr>))"
    using requestPassword_from_ok [of "Suc (Suc 0)" p3 h wb later] assms(3) v3 k3 by simp
  have two: "requestPassword h [Some p1, Some p2] w = (AwaitingPassword, wb)"
    unfolding requestPassword_def step1 step2 by simp
  have three: "requestPassword h (Some p1 # Some p2 # Some p3 # later) w
      = requestPassword_from h (Suc (Suc 0)) (Some p3 # later) wb"
    unfolding requestPassword_def step1 step2 ..
  show ?thesis
    unfolding two three using step3 done3 ok3 sb sc
    by (auto simp add: lockApp_def setEncryptionKey_def simp del: requestPassword_from.simps)
qed

lemma sample_decrypt_envelope:
  "sm_encryptionKey w = Some k \<Longrightarrow> wf_json v \<Longrightarrow>
   SecurityManager_decryptData sample_host (sample_envelope k0 v) w =
     (if k = k0 then Promise (Inr v) else Promise (Inl (Error ''Failed to decrypt data'')))"
  by (simp add: SecurityManager_decryptData_def sample_envelope_def sample_atob_btoa sample_random_def
      sample_decrypt_encrypt sample_wrong_key sample_decode_encode sample_parse_stringify Let_def)

lemma sample_envelope_nonempty [simp]: "sample_envelope k v \<noteq> []"
  by (simp add: sample_envelope_def sample_btoa_def)

lemma sample_startup_verify:
  "localStorage w = localStorage startup_world \<Longrightarrow>
   fst (verifyPassword sample_host k w) = (k = CryptoKey 6)"
  by (simp add: verifyPassword_def startup_world_def getItem_def sample_decrypt_envelope Let_def)

theorem requestPassword_lockout_boundary_witness:
  "''a'' \<noteq> [] \<and> ''bb'' \<noteq> [] \<and> ''secret'' \<noteq> [] \<and> ''ccc'' \<noteq> []
   \<and> \<not> fst (verifyPassword sample_host (fst (deriveKey sample_host ''a'' startup_world)) startup_world)
   \<and> \<not> fst (verifyPassword sample_host (fst (deriveKey sample_host ''bb'' startup_world)) startup_world)
   \<and> \<not> fst (verifyPassword sample_host (fst (deriveKey sample_host ''ccc'' startup_world)) startup_world)
   \<and> fst (verifyPassword sample_host (fst (deriveKey sample_host ''secret'' startup_world)) startup_world)
   \<and> fst (deriveKey sample_host ''secret'' startup_world) = CryptoKey 6
   \<and> dm_encryptionKey startup_world = None \<and> locked startup_world = False
   \<and> fst (requestPassword sample_host [Some ''a'', Some ''bb'', Some ''ccc''] startup_world) = AppLocked
   \<and> locked (snd (requestPassword sample_host [Some ''a'', Some ''bb'', Some ''ccc''] startup_world))
   \<and> dm_encryptionKey (snd (requestPassword sample_host [Some ''a'', Some ''bb'', Some ''ccc''] startup_world))
       = dm_encryptionKey startup_world
   \<and> fst (requestPassword sample_host [Some ''a'', Some ''bb'', Some ''secret''] startup_world) = Unlocked
   \<and> dm_encryptionKey (snd (requestPassword sample_host [Some ''a'', Some ''bb'', Some ''secret''] startup_world))
       = Some (fst (deriveKey sample_host ''secret'' startup_world))
   \<and> dm_isEncrypted (snd (requestPassword sample_host [Some ''a'', Some ''bb'', Some ''secret''] startup_world))
   \<and> locked (snd (requestPassword sample_host [Some ''a'', Some ''bb'', Some ''secret''] startup_world))
       = locked startup_world
   \<and> fst (requestPassword sample_host [Some ''a'', Some ''bb''] startup_world) = AwaitingPassword
   \<and> locked (snd (requestPassword sample_host [Some ''a'', Some ''bb''] startup_world))
       = locked startup_world"
proof -
  have ne: "''a'' \<noteq> []" "''bb'' \<noteq> []" "''secret'' \<noteq> []" "''ccc'' \<noteq> []" by simp_all
  have va: "\<not> fst (verifyPassword sample_host (fst (deriveKey sample_host ''a'' startup_world)) startup_world)"
    by (simp add: sample_startup_verify)
  have vb: "\<not> fst (verifyPassword sample_host (fst (deriveKey sample_host ''bb'' startup_world)) startup_world)"
    by (simp add: sample_startup_verify)
  have vc: "\<not> fst (verifyPassword sample_host (fst (deriveKey sample_host ''ccc'' startup_world)) startup_world)"
    by (simp add: sample_startup_verify)
  have vs: "fst (verifyPassword sample_host (fst (deriveKey sample_host ''secret'' startup_world)) startup_world)"
    by (simp add: sample_startup_verify)
  have st: "dm_encryptionKey startup_world = None" "locked startup_world = False"
    by (simp_all add: startup_world_def)
  have k6: "fst (deriveKey sample_host ''secret'' startup_world) = CryptoKey 6" by simp
  note fail = requestPassword_lockout_boundary [OF ne(1) ne(2) ne(4) va vb, of "[]",
      THEN conjunct1, THEN mp, OF vc]
  note pass = requestPassword_lockout_boundary [OF ne(1) ne(2) ne(3) va vb, of "[]",
      THEN conjunct2, THEN conjunct1, THEN mp, OF vs]
  note two = requestPassword_lockout_boundary [OF ne(1) ne(2) ne(3) va vb, of "[]",
      THEN conjunct2, THEN conjunct2]
  show ?thesis
    using fail pass two ne va vb vc vs st k6 by blast
qed

section \<open>The cipher\<close>

lemma encryptData_envelope:
  assumes "sm_encryptionKey w = Some K1"
  shows "fst (SecurityManager_encryptData h data w) =
     Promise (Inr (btoa_bytes h (getRandomValues h (iv_draws w)
        @ subtle_encrypt h K1 (getRandomValues h (iv_draws w))
            (TextEncoder_encode h (stringify h data)))))"
  using assms by (simp add: SecurityManager_encryptData_def Let_def)

text \<open>
  C5. Wrong-key rejection: an envelope that \<open>encryptData\<close> made under the key \<open>K1\<close> is
  rejected by \<open>decryptData\<close> under any other key \<open>K2\<close> with the error
  \<open>Failed to decrypt data\<close>, given that the host's base64 coding round-trips, its nonces
  have 12 bytes and its AES-GCM authenticates. The program's part is the framing: the
  nonce and the ciphertext that \<open>decryptData\<close> cuts out of the envelope are the ones
  \<open>encryptData\<close> put in, and every failure is rethrown as that error.
\<close>

theorem wrong_key_rejected:
  assumes "base64_roundtrip h" and "nonce_length h" and "authenticated_cipher h"
    and "sm_encryptionKey w = Some K1" and "K2 \<noteq> K1"
    and "fst (SecurityManager_encryptData h data w) = Promise (Inr E)"
    and "sm_encryptionKey w2 = Some K2"
  shows "SecurityManager_decryptData h E w2 = Promise (Inl (Error ''Failed to decrypt data''))"
proof -
  let ?iv = "getRandomValues h (iv_draws w)"
  let ?ct = "subtle_encrypt h K1 ?iv (TextEncoder_encode h (stringify h data))"
  have E: "E = btoa_bytes h (?iv @ ?ct)"
    using assms(6) encryptData_envelope [OF assms(4), of h data] by simp
  have decoded: "atob_bytes h E = Some (?iv @ ?ct)"
    using assms(1) by (simp add: base64_roundtrip_def E)
  have len: "length ?iv = 12" using assms(2) by (simp add: nonce_length_def)
  have parts: "take 12 (?iv @ ?ct) = ?iv" "drop 12 (?iv @ ?ct) = ?ct" using len by simp_all
  have ne: "K1 \<noteq> K2" using assms(5) by simp
  have "subtle_decrypt h K2 ?iv ?ct = None"
    by (rule assms(3) [unfolded authenticated_cipher_def, rule_format, OF ne])
  then show ?thesis
    using assms(7) decoded parts by (simp add: SecurityManager_decryptData_def Let_def)
qed

theorem wrong_key_rejected_witness:
  "base64_roundtrip sample_host \<and> nonce_length sample_host \<and> authenticated_cipher sample_host
   \<and> sm_encryptionKey encrypted_world = Some (CryptoKey 2) \<and> CryptoKey 3 \<noteq> CryptoKey 2
   \<and> fst (SecurityManager_encryptData sample_host (Val sample_assets) encrypted_world)
       = Promise (Inr (sample_envelope (CryptoKey 2) sample_assets))
   \<and> sm_encryptionKey (encrypted_world\<lparr>sm_encryptionKey := Some (CryptoKey 3)\<rparr>) = Some (CryptoKey 3)
   \<and> SecurityManager_decryptData sample_host (sample_envelope (CryptoKey 2) sample_assets)
        (encrypted_world\<lparr>sm_encryptionKey := Some (CryptoKey 3)\<rparr>)
       = Promise (Inl (Error ''Failed to decrypt data''))
   \<and> SecurityManager_decryptData sample_host (sample_envelope (CryptoKey 2) sample_assets) encrypted_world
       = Promise (Inr sample_assets)"
proof -
  have k: "sm_encryptionKey encrypted_world = Some (CryptoKey 2)"
    by (simp add: encrypted_world_def sample_key_def)
  have ne: "CryptoKey 3 \<noteq> CryptoKey 2" by simp
  have e: "fst (SecurityManager_encryptData sample_host (Val sample_assets) encrypted_world)
       = Promise (Inr (sample_envelope (CryptoKey 2) sample_assets))"
  proof -
    have "iv_draws encrypted_world = 0" by (simp add: encrypted_world_def)
    then show ?thesis by (simp add: encryptData_envelope [OF k] sample_envelope_def)
  qed
  have k2: "sm_encryptionKey (encrypted_world\<lparr>sm_encryptionKey := Some (CryptoKey 3)\<rparr>) = Some (CryptoKey 3)"
    by simp
  have same: "SecurityManager_decryptData sample_host (sample_envelope (CryptoKey 2) sample_assets)
      encrypted_world = Promise (Inr sample_assets)"
    using sample_decrypt_envelope [OF k, of sample_assets "CryptoKey 2"] by simp
  show ?thesis
    using wrong_key_rejected [OF sample_base64_roundtrip sample_nonce_length sample_authenticated_cipher
        k ne e k2]
      sample_base64_roundtrip sample_nonce_length sample_authenticated_cipher k ne e k2 same
    by blast
qed


section \<open>The enable flow\<close>

lemma setData_not_enabled:
  "\<not> sm_isEncryptionEnabled w \<Longrightarrow>
   setData h key data w =
     (if setItem_throws h (localStorage w) (storagePrefix @ key) (stringify h data) then (False, w)
      else (True, w\<lparr>localStorage := setItem (localStorage w) (storagePrefix @ key) (stringify h data)\<rparr>))"
  by (simp add: setData_def dataManager_encryptData_def)

lemma stringify_is_json: "\<exists>j. stringify h data = JSON_stringify h j"
  by (cases data) auto

lemma reencrypt_each_not_enabled:
  assumes "\<not> sm_isEncryptionEnabled w"
    and "\<forall>k v. getItem (localStorage w) k = Some v \<longrightarrow>
           getItem ls0 k = Some v \<or> (\<exists>j. v = JSON_stringify h j)"
  shows "\<not> sm_isEncryptionEnabled (reencrypt_each h keys w)
       \<and> iv_draws (reencrypt_each h keys w) = iv_draws w
       \<and> dm_encryptionKey (reencrypt_each h keys w) = dm_encryptionKey w
       \<and> dm_isEncrypted (reencrypt_each h keys w) = dm_isEncrypted w
       \<and> sm_encryptionKey (reencrypt_each h keys w) = sm_encryptionKey w
       \<and> kdf_calls (reencrypt_each h keys w) = kdf_calls w
       \<and> (\<forall>k v. getItem (localStorage (reencrypt_each h keys w)) k = Some v \<longrightarrow>
             getItem ls0 k = Some v \<or> (\<exists>j. v = JSON_stringify h j))"
  using assms
proof (induction keys arbitrary: w)
  case Nil
  then show ?case by simp
next
  case (Cons key keys)
  let ?w1 = "if truthy (getData h key w) then snd (setData h key (getData h key w) w) else w"
  have f: "\<not> sm_isEncryptionEnabled ?w1" "iv_draws ?w1 = iv_draws w"
    "dm_encryptionKey ?w1 = dm_encryptionKey w" "dm_isEncrypted ?w1 = dm_isEncrypted w"
    "sm_encryptionKey ?w1 = sm_encryptionKey w" "kdf_calls ?w1 = kdf_calls w"
    using Cons.prems(1) by (simp_all add: setData_not_enabled)
  have st: "\<forall>k v. getItem (localStorage ?w1) k = Some v \<longrightarrow>
           getItem ls0 k = Some v \<or> (\<exists>j. v = JSON_stringify h j)"
    using Cons.prems stringify_is_json [of h "getData h key w"]
    by (auto simp add: setData_not_enabled getItem_setItem split: if_splits)
  have "reencrypt_each h (key # keys) w = reencrypt_each h keys ?w1" by (simp add: Let_def)
  then show ?case using Cons.IH [OF f(1) st] f by simp
qed

text \<open>
  C2. The enable flow does not do what its comments say. Started with encryption off and
  a password that is confirmed, it does set \<open>this.encryptionKey\<close> first, but the key is
  installed in the Record Store (\<open>dataManager.setEncryptionKey\<close>) only after the sweep and
  after the settings are written: the sweep runs with the Record Store's key and flag as
  they were and with \<open>isEncryptionEnabled\<close> false. So no nonce is drawn, nothing is
  encrypted, and every entry of the store afterwards is either untouched or the plain
  \<open>JSON.stringify\<close> text of a value. When the flow succeeds, the key ends up installed.
\<close>

theorem enableEncryption_sweep_plaintext:
  assumes "\<not> sm_isEncryptionEnabled w" and "password \<noteq> []"
    and "w' = enableEncryption h (Some password) (Some password) w"
    and "swept = reencryptAllData h ((snd (deriveKey h password w))
                   \<lparr>sm_encryptionKey := Some (fst (deriveKey h password w))\<rparr>)"
  shows "iv_draws w' = iv_draws w
       \<and> (\<forall>k v. getItem (localStorage w') k = Some v \<longrightarrow>
             getItem (localStorage w) k = Some v \<or> (\<exists>j. v = JSON_stringify h j))
       \<and> dm_encryptionKey swept = dm_encryptionKey w \<and> dm_isEncrypted swept = dm_isEncrypted w
       \<and> \<not> sm_isEncryptionEnabled swept
       \<and> (sm_isEncryptionEnabled w' \<longrightarrow>
             dm_encryptionKey w' = Some (fst (deriveKey h password w)) \<and> dm_isEncrypted w')"
proof -
  obtain key w1 where d: "deriveKey h password w = (key, w1)" by (cases "deriveKey h password w")
  have w1: "w1 = w\<lparr>kdf_calls := Suc (kdf_calls w)\<rparr>" using d deriveKey_snd [of h password w] by simp
  let ?w2 = "w1\<lparr>sm_encryptionKey := Some key\<rparr>"
  have sw: "swept = reencrypt_each h (getAllKeys ?w2) ?w2"
    using assms(4) d by (simp add: reencryptAllData_def)
  have p2: "\<not> sm_isEncryptionEnabled ?w2" using assms(1) w1 by simp
  have s2: "\<forall>k v. getItem (localStorage ?w2) k = Some v \<longrightarrow>
           getItem (localStorage w) k = Some v \<or> (\<exists>j. v = JSON_stringify h j)"
    by (simp add: w1)
  note inv = reencrypt_each_not_enabled [OF p2 s2, of "getAllKeys ?w2", folded sw]
  have i3: "\<not> sm_isEncryptionEnabled swept" "iv_draws swept = iv_draws w"
    "dm_encryptionKey swept = dm_encryptionKey w" "dm_isEncrypted swept = dm_isEncrypted w"
    "sm_encryptionKey swept = Some key"
    using inv by (simp_all add: w1)
  have s3: "\<forall>k v. getItem (localStorage swept) k = Some v \<longrightarrow>
           getItem (localStorage w) k = Some v \<or> (\<exists>j. v = JSON_stringify h j)"
    using inv by blast
  let ?settings = "js_or (getData h ''settings'' swept) (Val (JObj []))"
  have w'_cases: "w' = (case set_field ?settings ''encryptionEnabled'' (JBool True) of
        Inl e \<Rightarrow> showAlert ''Failed to enable encryption. Please try again.'' ''error'' swept
      | Inr settings' \<Rightarrow>
          showAlert ''Encryption enabled successfully!'' ''success''
            ((setEncryptionKey (sm_encryptionKey (snd (setData h ''settings'' settings' swept)))
               (snd (setData h ''settings'' settings' swept)))\<lparr>sm_isEncryptionEnabled := True\<rparr>))"
    using assms(2,3) d sw
    by (simp add: enableEncryption_def reencryptAllData_def Let_def split: sum.splits)
  show ?thesis
  proof (cases "set_field ?settings ''encryptionEnabled'' (JBool True)")
    case (Inl e)
    then have "w' = showAlert ''Failed to enable encryption. Please try again.'' ''error'' swept"
      using w'_cases by simp
    then show ?thesis using i3 s3 d by simp
  next
    case (Inr settings')
    let ?w4 = "snd (setData h ''settings'' settings' swept)"
    have w': "w' = showAlert ''Encryption enabled successfully!'' ''success''
            ((setEncryptionKey (sm_encryptionKey ?w4) ?w4)\<lparr>sm_isEncryptionEnabled := True\<rparr>)"
      using w'_cases Inr by simp
    have f4: "iv_draws ?w4 = iv_draws w" "sm_encryptionKey ?w4 = Some key"
      using i3 by (simp_all add: setData_not_enabled)
    have s4: "\<forall>k v. getItem (localStorage ?w4) k = Some v \<longrightarrow>
           getItem (localStorage w) k = Some v \<or> (\<exists>j. v = JSON_stringify h j)"
      using s3 i3(1) stringify_is_json [of h settings']
      by (auto simp add: setData_not_enabled getItem_setItem split: if_splits)
    show ?thesis using f4 s4 i3 d by (simp add: w' setEncryptionKey_def)
  qed
qed


lemma sample_truthy [simp]: "truthy (Val sample_assets)" "truthy (Val (sample_settings b))"
  by (simp_all add: sample_assets_def sample_settings_def)

lemma sample_settings_enabled [simp]:
  "set_field (Val (sample_settings b)) ''encryptionEnabled'' (JBool c) = Inr (Val (sample_settings c))"
  by (simp add: sample_settings_def)

lemma sample_enable_run:
  "enableEncryption sample_host (Some ''pw'') (Some ''pw'') plain_world =
     \<lparr>localStorage =
        [(''financeTracker_assets'', sample_stringify sample_assets),
         (''financeTracker_settings'', sample_stringify (sample_settings True))],
      dm_encryptionKey = Some (CryptoKey 2), dm_isEncrypted = True,
      sm_isEncryptionEnabled = True, sm_encryptionKey = Some (CryptoKey 2),
      alerts = [(''Encryption enabled successfully!'', ''success'')],
      locked = False, iv_draws = 0, kdf_calls = 1\<rparr>"
  by (simp add: enableEncryption_def deriveKey_def sample_deriveKey_def sample_encode_def
      reencryptAllData_def getAllKeys_def plain_world_def startsWith_def storagePrefix_def
      getData_def setData_def getItem_def setItem_def js_or_def setEncryptionKey_def showAlert_def
      sample_parse_stringify sample_stringify_nonempty Let_def)

theorem enableEncryption_sweep_plaintext_witness:
  "\<not> sm_isEncryptionEnabled plain_world \<and> ''pw'' \<noteq> []
   \<and> iv_draws (enableEncryption sample_host (Some ''pw'') (Some ''pw'') plain_world)
       = iv_draws plain_world
   \<and> dm_encryptionKey (reencryptAllData sample_host ((snd (deriveKey sample_host ''pw'' plain_world))
         \<lparr>sm_encryptionKey := Some (fst (deriveKey sample_host ''pw'' plain_world))\<rparr>))
       = dm_encryptionKey plain_world
   \<and> dm_encryptionKey plain_world = None
   \<and> localStorage (enableEncryption sample_host (Some ''pw'') (Some ''pw'') plain_world)
       = [(''financeTracker_assets'', sample_stringify sample_assets),
          (''financeTracker_settings'', sample_stringify (sample_settings True))]
   \<and> sm_isEncryptionEnabled (enableEncryption sample_host (Some ''pw'') (Some ''pw'') plain_world)
   \<and> dm_encryptionKey (enableEncryption sample_host (Some ''pw'') (Some ''pw'') plain_world)
       = Some (CryptoKey 2)"
proof -
  have a: "\<not> sm_isEncryptionEnabled plain_world" "dm_encryptionKey plain_world = None"
    by (simp_all add: plain_world_def)
  have b: "''pw'' \<noteq> []" by simp
  note t = enableEncryption_sweep_plaintext [OF a(1) b refl refl, of sample_host]
  have run: "localStorage (enableEncryption sample_host (Some ''pw'') (Some ''pw'') plain_world)
       = [(''financeTracker_assets'', sample_stringify sample_assets),
          (''financeTracker_settings'', sample_stringify (sample_settings True))]"
    "sm_isEncryptionEnabled (enableEncryption sample_host (Some ''pw'') (Some ''pw'') plain_world)"
    "dm_encryptionKey (enableEncryption sample_host (Some ''pw'') (Some ''pw'') plain_world)
       = Some (CryptoKey 2)"
    by (simp_all add: sample_enable_run)
  show ?thesis
    using t [THEN conjunct1] t [THEN conjunct2, THEN conjunct2, THEN conjunct1] a b run
    by blast
qed


section \<open>Sums of doubles\<close>

lemma round_half_even_int: "round_half_even (of_int z) = z"
  by (simp add: round_half_even_def)

lemma round_half_even_nat [simp]: "round_half_even (of_nat z) = int z"
  using round_half_even_int [of "int z"] by simp

lemma round_half_even_numeral [simp]:
  "round_half_even 0 = 0" "round_half_even 1 = 1" "round_half_even (numeral n) = numeral n"
  using round_half_even_int [of 0] round_half_even_int [of 1] round_half_even_int [of "numeral n"]
  by simp_all

lemma round_half_even_half: "even z \<Longrightarrow> round_half_even (of_int z + 1 / 2) = z"
proof -
  assume e: "even z"
  have "\<lfloor>of_int z + 1 / 2 :: rat\<rfloor> = z" by (rule floor_unique) simp_all
  then show ?thesis using e by (simp add: round_half_even_def)
qed

lemma round_double_scaled:
  assumes "\<bar>q\<bar> * 2 ^ 1074 = of_nat a * 2 ^ c" and "0 < a" and "floorlog 2 a = l"
  shows "round_double q =
     (if (2::int) ^ 2098 \<le> round_half_even (of_nat a * 2 ^ c / 2 ^ (l + c - 53)) * 2 ^ (l + c - 53)
      then (if q < 0 then NegInfinity else PosInfinity)
      else Number (sgn q * of_int (round_half_even (of_nat a * 2 ^ c / 2 ^ (l + c - 53)) * 2 ^ (l + c - 53))
             / 2 ^ 1074))"
proof -
  have "\<bar>q\<bar> * 2 ^ 1074 = of_nat (a * 2 ^ c)" using assms(1) by simp
  then have fl: "nat \<lfloor>\<bar>q\<bar> * 2 ^ 1074\<rfloor> = a * 2 ^ c" by (simp only: floor_of_nat nat_int)
  have "floorlog 2 (a * 2 ^ c) = l + c" using assms(2,3) by simp
  then show ?thesis
    unfolding round_double_def Let_def fl by (simp only: assms(1))
qed

lemma round_double_exact:
  assumes "\<bar>q\<bar> * 2 ^ 1074 = of_nat a * 2 ^ c" and "a < 2 ^ 53" and "a * 2 ^ c < 2 ^ 2098"
  shows "round_double q = Number q"
proof (cases "a = 0")
  case True
  then have "q = 0" using assms(1) by simp
  then show ?thesis by (simp add: round_double_def floorlog_def Let_def)
next
  case False
  define l where "l = floorlog 2 a"
  have l: "l \<le> 53" unfolding l_def using assms(2) by (simp add: floorlog_le_iff)
  define k where "k = l + c - 53"
  have kc: "k \<le> c" unfolding k_def using l by simp
  have "(2::rat) ^ c = 2 ^ (c - k) * 2 ^ k" using kc by (simp flip: power_add)
  then have "of_nat a * 2 ^ c / (2::rat) ^ k = of_nat (a * 2 ^ (c - k))" by simp
  then have r: "round_half_even (of_nat a * 2 ^ c / 2 ^ k) = int (a * 2 ^ (c - k))"
    by (simp only: round_half_even_nat)
  have "int (a * 2 ^ (c - k)) * 2 ^ k = int (a * 2 ^ c)"
    using kc by (simp flip: power_add add: mult.assoc)
  then have m: "round_half_even (of_nat a * 2 ^ c / 2 ^ k) * 2 ^ k = int (a * 2 ^ c)"
    using r by simp
  have small: "\<not> (2::int) ^ 2098 \<le> int (a * 2 ^ c)"
    using assms(3) by (metis not_le of_nat_less_iff of_nat_numeral of_nat_power)
  have "sgn q * of_int (int (a * 2 ^ c)) / 2 ^ 1074 = sgn q * (\<bar>q\<bar> * 2 ^ 1074) / 2 ^ 1074"
    using assms(1) by simp
  also have "\<dots> = q" by (simp add: sgn_mult_abs)
  finally have v: "sgn q * of_int (int (a * 2 ^ c)) / 2 ^ 1074 = q" .
  show ?thesis
    using round_double_scaled [OF assms(1) _ l_def [symmetric]] False
    unfolding k_def [symmetric] m by (simp only: small v if_False)
qed

lemma round_double_int: "\<bar>n\<bar> < 2 ^ 53 \<Longrightarrow> round_double (of_int n) = Number (of_int n)"
proof (rule round_double_exact [where a = "nat \<bar>n\<bar>" and c = 1074])
  assume a: "\<bar>n\<bar> < 2 ^ 53"
  show "\<bar>of_int n :: rat\<bar> * 2 ^ 1074 = of_nat (nat \<bar>n\<bar>) * 2 ^ 1074" by simp
  show "nat \<bar>n\<bar> < 2 ^ 53" using a by (simp add: nat_less_iff)
  then have "nat \<bar>n\<bar> * 2 ^ 1074 < 2 ^ 53 * 2 ^ 1074" by simp
  also have "\<dots> < (2::nat) ^ 2098" by (simp flip: power_add)
  finally show "nat \<bar>n\<bar> * 2 ^ 1074 < 2 ^ 2098" .
qed

lemma floorlog_54: "floorlog 2 (2 ^ 53 + 1) = 54" 
proof (rule antisym)
  show "floorlog 2 (2 ^ 53 + 1) \<le> 54" by (simp add: floorlog_le_iff)
  show "54 \<le> floorlog 2 (2 ^ 53 + 1)" by (rule floorlog_geI) simp_all
qed

lemma round_2_53_1: "round_double (2 ^ 53 + 1) = Number (2 ^ 53)"
proof -
  have a: "\<bar>2 ^ 53 + 1 :: rat\<bar> * 2 ^ 1074 = of_nat (2 ^ 53 + 1) * 2 ^ 1074" by simp
  have "of_nat (2 ^ 53 + 1) * 2 ^ 1074 / 2 ^ 1075 = (of_int (2 ^ 52) + 1 / 2 :: rat)"
    by simp
  then have h: "round_half_even (of_nat (2 ^ 53 + 1) * 2 ^ 1074 / 2 ^ 1075) = 2 ^ 52"
    using round_half_even_half [of "2 ^ 52"] by simp
  have e: "54 + 1074 - 53 = (1075::nat)" by simp
  have p: "0 < (2 ^ 53 + 1 :: nat)" by simp
  note s = round_double_scaled [OF a p floorlog_54, unfolded e h]
  show ?thesis using s by simp
qed

lemma round_2_1024: "round_double (2 ^ 1023 + 2 ^ 1023) = PosInfinity"
proof -
  have a: "\<bar>2 ^ 1023 + 2 ^ 1023 :: rat\<bar> * 2 ^ 1074 = of_nat 1 * 2 ^ 2098" by simp
  have f: "floorlog 2 1 = 1" by (simp add: floorlog_def)
  show ?thesis
    using round_double_scaled [OF a _ f] by simp
qed

lemma Number_add_zero_int:
  "\<bar>n\<bar> < 2 ^ 53 \<Longrightarrow> Number_add (Number 0) (Number (of_int n)) = Number (of_int n)"
  by (simp add: round_double_int)

lemma float_sum_Nil [simp]: "float_sum [] = Number 0"
  by (simp add: float_sum_def)

lemma float_sum_int2:
  assumes "\<bar>a\<bar> < 2 ^ 53" and "\<bar>a + b\<bar> < 2 ^ 53"
  shows "float_sum [of_int a, of_int b] = Number (of_int (a + b))"
proof -
  have "float_sum [of_int a, of_int b] = round_double (of_int a + of_int b)"
    using round_double_int [OF assms(1)] by (simp add: float_sum_def)
  also have "\<dots> = Number (of_int (a + b))"
    using round_double_int [OF assms(2)] by simp
  finally show ?thesis .
qed

text \<open>
  The sum of doubles is the exact sum as long as no partial sum is rounded, and integers
  below \<open>2^53\<close> are doubles.
\<close>

lemma float_sum_snoc: "float_sum (xs @ [x]) = Number_add (float_sum xs) (Number x)"
  by (simp add: float_sum_def)

lemma float_sum_exact:
  "(\<And>n. n \<le> length xs \<Longrightarrow> is_double (sum_list (take n xs))) \<Longrightarrow>
   float_sum xs = Number (sum_list xs)"
proof (induction xs rule: rev_induct)
  case Nil
  then show ?case by simp
next
  case (snoc x xs)
  have "is_double (sum_list (take n xs))" if "n \<le> length xs" for n
    using snoc.prems [of n] that by simp
  then have "float_sum xs = Number (sum_list xs)" by (rule snoc.IH)
  moreover have "is_double (sum_list (xs @ [x]))"
    using snoc.prems [of "length (xs @ [x])"] by simp
  ultimately show ?case by (simp add: float_sum_snoc is_double_def)
qed

lemma is_double_int: "\<bar>n\<bar> < 2 ^ 53 \<Longrightarrow> is_double (of_int n)"
  by (simp add: is_double_def round_double_int)

lemma sample_float_sum: "float_sum (map amount sample_savings) = Number 12"
  using float_sum_int2 [of 5 7] by (simp add: sample_savings_def amount_def)

lemma rounding_float_sum: "float_sum (map amount sample_rounding_savings) = Number (2 ^ 53)"
proof -
  have "round_double (2 ^ 53) = Number (2 ^ 53)"
    by (rule round_double_exact [where a = 1 and c = 1127]) simp_all
  then show ?thesis
    using round_2_53_1 by (simp add: float_sum_def sample_rounding_savings_def amount_def)
qed

lemma overflow_float_sum: "float_sum (map amount sample_overflow_savings) = PosInfinity"
proof -
  have "round_double (2 ^ 1023) = Number (2 ^ 1023)"
    by (rule round_double_exact [where a = 1 and c = 2097]) simp_all
  then show ?thesis
    using round_2_1024 by (simp add: float_sum_def sample_overflow_savings_def amount_def)
qed

section \<open>Goals\<close>

lemma getData_encrypting:
  "encrypting w \<Longrightarrow> getData h k w = Val JNull \<or> (\<exists>p. getData h k w = PromiseObj [] p)"
  by (auto simp add: getData_def encrypting_def dataManager_decryptData_def split: option.splits)

lemma getData_not_encrypting: "\<not> encrypting w \<Longrightarrow> \<exists>v. getData h k w = Val v"
  by (auto simp add: getData_def encrypting_def dataManager_decryptData_def split: option.splits)

lemma setData_encrypting:
  "encrypting w \<Longrightarrow>
   setData h k d w =
     (if setItem_throws h (localStorage w) (storagePrefix @ k) ''[object Promise]''
      then (False, w\<lparr>iv_draws := Suc (iv_draws w)\<rparr>)
      else (True, w\<lparr>iv_draws := Suc (iv_draws w),
                     localStorage := setItem (localStorage w) (storagePrefix @ k) ''[object Promise]''\<rparr>))"
  by (auto simp add: setData_def dataManager_encryptData_def SecurityManager_encryptData_def
      encrypting_def String_of_promise_def Let_def)

lemma setData_not_encrypting:
  "\<not> encrypting w \<Longrightarrow>
   setData h k d w =
     (if setItem_throws h (localStorage w) (storagePrefix @ k) (stringify h d) then (False, w)
      else (True, w\<lparr>localStorage := setItem (localStorage w) (storagePrefix @ k) (stringify h d)\<rparr>))"
  by (auto simp add: setData_def dataManager_encryptData_def encrypting_def)

lemma setData_fields:
  "dm_isEncrypted (snd (setData h k d w)) = dm_isEncrypted w"
  "dm_encryptionKey (snd (setData h k d w)) = dm_encryptionKey w"
  "sm_isEncryptionEnabled (snd (setData h k d w)) = sm_isEncryptionEnabled w"
  "sm_encryptionKey (snd (setData h k d w)) = sm_encryptionKey w"
  by (cases "encrypting w"; simp add: setData_encrypting setData_not_encrypting)+

lemma encrypting_setData [simp]: "encrypting (snd (setData h k d w)) = encrypting w"
  by (simp add: encrypting_def setData_fields)

lemma setData_failed:
  "\<not> fst (setData h k d w) \<Longrightarrow> localStorage (snd (setData h k d w)) = localStorage w"
  by (cases "encrypting w") (simp_all add: setData_encrypting setData_not_encrypting split: if_splits)

lemma setData_failed_getData:
  "\<not> fst (setData h k d w) \<Longrightarrow> getData h k' (snd (setData h k d w)) = getData h k' w"
  by (rule getData_fields) (simp_all add: setData_failed setData_fields)

lemma setData_stored_plain:
  "\<not> encrypting w \<Longrightarrow> fst (setData h k d w) \<Longrightarrow>
   getItem (localStorage (snd (setData h k d w))) (storagePrefix @ k) = Some (stringify h d)"
  by (simp add: setData_not_encrypting getItem_setItem split: if_splits)

lemma setData_stored_encrypting:
  "encrypting w \<Longrightarrow> fst (setData h k d w) \<Longrightarrow>
   getItem (localStorage (snd (setData h k d w))) (storagePrefix @ k) = Some ''[object Promise]''"
  by (simp add: setData_encrypting getItem_setItem split: if_splits)

lemma getData_after_setData_plain:
  assumes "json_roundtrip h" and "\<not> encrypting w" and "fst (setData h k (Val V) w)"
    and "wf_json V"
  shows "getData h k (snd (setData h k (Val V) w)) = Val V"
proof -
  let ?w' = "snd (setData h k (Val V) w)"
  have st: "getItem (localStorage ?w') (storagePrefix @ k) = Some (JSON_stringify h V)"
    using setData_stored_plain [OF assms(2,3)] by simp
  have rt: "JSON_parse h (JSON_stringify h V) = Some V" "JSON_stringify h V \<noteq> []"
    using assms(1,4) by (simp_all add: json_roundtrip_def)
  have ne: "\<not> encrypting ?w'" using assms(2) by simp
  show ?thesis using st rt ne
    by (auto simp add: getData_def dataManager_decryptData_def encrypting_def)
qed

lemma getData_after_setData_encrypting:
  assumes "encrypting w" and "fst (setData h k d w)"
  shows "\<exists>p. getData h k (snd (setData h k d w)) = PromiseObj [] p"
proof -
  let ?w' = "snd (setData h k d w)"
  have st: "getItem (localStorage ?w') (storagePrefix @ k) = Some ''[object Promise]''"
    by (rule setData_stored_encrypting [OF assms])
  have e: "encrypting ?w'" using assms(1) by simp
  show ?thesis using st e
    by (simp add: getData_def dataManager_decryptData_def encrypting_def)
qed


lemma getData_promise_props: "getData h k w = PromiseObj ps p \<Longrightarrow> ps = []"
  by (auto simp add: getData_def dataManager_decryptData_def split: option.splits if_splits)

lemma record_data_shape:
  assumes "get_field (js_or (getData h k w) (Val (JObj d))) f = Inr (Some x)"
  shows "\<exists>kvs. js_or (getData h k w) (Val (JObj d)) = Val (JObj kvs) \<and> map_of kvs f = Some x"
proof (cases "js_or (getData h k w) (Val (JObj d))")
  case (Val v)
  then show ?thesis using assms by (cases v) auto
next
  case (PromiseObj ps p)
  then have "getData h k w = PromiseObj ps p" by (auto simp add: js_or_def split: if_splits)
  then have "ps = []" by (rule getData_promise_props)
  then show ?thesis using assms PromiseObj by simp
qed

lemma getData_wf:
  assumes "json_roundtrip h" and "getData h k w = Val v"
  shows "wf_json v"
proof -
  have p: "JSON_parse h s = Some x \<Longrightarrow> wf_json x" for s x
    using assms(1) unfolding json_roundtrip_def by blast
  show ?thesis
    using assms(2) p
    by (auto simp add: getData_def dataManager_decryptData_def
        split: option.splits if_splits sum.splits)
qed

lemma record_data_wf:
  assumes "json_roundtrip h" and "wf_json (JObj d)"
    and "get_field (js_or (getData h k w) (Val (JObj d))) f = Inr (Some x)"
  shows "\<exists>kvs. js_or (getData h k w) (Val (JObj d)) = Val (JObj kvs)
       \<and> map_of kvs f = Some x \<and> wf_json (JObj kvs) \<and> wf_json x"
proof -
  obtain kvs where kvs: "js_or (getData h k w) (Val (JObj d)) = Val (JObj kvs)"
    and m: "map_of kvs f = Some x"
    using record_data_shape [OF assms(3)] by blast
  have wk: "wf_json (JObj kvs)"
  proof (cases "truthy (getData h k w)")
    case True
    then have "getData h k w = Val (JObj kvs)" using kvs by (simp add: js_or_def)
    then show ?thesis by (rule getData_wf [OF assms(1)])
  next
    case False
    then show ?thesis using kvs assms(2) by (simp add: js_or_def)
  qed
  have "wf_json x" by (rule wf_lookup [OF wk m])
  then show ?thesis using kvs m wk by blast
qed

lemma wf_goals_default: "wf_json (JObj [(''goals'', JArr [])])"
  by (simp add: key_order_def)

lemma wf_new_goal:
  "wf_json (JObj goal) \<Longrightarrow>
   wf_json (JObj (AList.update ''created'' (JStr created) (AList.update ''savingsDetails'' (JArr [])
      (AList.update ''saved'' (JNum 0) (AList.update ''id'' (JStr newId) goal)))))"
  by (intro wf_update) simp_all

lemma goals_data:
  assumes "json_roundtrip h"
    and "get_field (js_or (getData h ''goals'' w) goals_default) ''goals'' = Inr (Some (JArr gs))"
  shows "\<exists>kvs. js_or (getData h ''goals'' w) goals_default = Val (JObj kvs)
       \<and> wf_json (JObj kvs) \<and> wf_json (JArr gs)"
  using record_data_wf [OF assms(1) wf_goals_default assms(2) [unfolded goals_default_def]]
  unfolding goals_default_def by blast

lemma wf_goals_update:
  "wf_json (JObj kvs) \<Longrightarrow> wf_json (JArr gs) \<Longrightarrow> wf_json (JObj (AList.update ''goals'' (JArr gs) kvs))"
  by (rule wf_update) simp_all

lemma wf_updated_goal:
  "wf_json (JObj gk) \<Longrightarrow> wf_json (JArr ds) \<Longrightarrow>
   wf_json (JObj (AList.update ''lastUpdated'' (JStr u) (AList.update ''saved'' (JNum s)
      (AList.update ''savingsDetails'' (JArr ds) gk))))"
  by (intro wf_update) simp_all

lemma getGoals_after_commit:
  assumes "json_roundtrip h" and "\<not> encrypting w"
    and "fst (setData h ''goals'' (Val (JObj kvs)) w)" and "wf_json (JObj kvs)"
  shows "getGoals h (snd (setData h ''goals'' (Val (JObj kvs)) w)) = Inr (map_of kvs ''goals'')"
  using getData_after_setData_plain [OF assms] by (simp add: getGoals_def js_or_def)

lemma goals_commit:
  assumes "json_roundtrip h" and "goals_saved_consistent h w"
    and "map_of kvs ''goals'' = Some (JArr gs)" and "list_all goal_consistent gs"
    and "wf_json (JObj kvs)"
  shows "goals_saved_consistent h (snd (setData h ''goals'' (Val (JObj kvs)) w))"
proof (cases "fst (setData h ''goals'' (Val (JObj kvs)) w)")
  case False
  then have "getGoals h (snd (setData h ''goals'' (Val (JObj kvs)) w)) = getGoals h w"
    by (simp add: getGoals_def setData_failed_getData)
  then show ?thesis using assms(2) by (simp add: goals_saved_consistent_def)
next
  case True
  show ?thesis
  proof (cases "encrypting w")
    case e: True
    obtain p where "getData h ''goals'' (snd (setData h ''goals'' (Val (JObj kvs)) w)) = PromiseObj [] p"
      using getData_after_setData_encrypting [OF e True] by blast
    then show ?thesis by (simp add: goals_saved_consistent_def getGoals_def js_or_def)
  next
    case False
    then show ?thesis
      using getGoals_after_commit [OF assms(1) False True assms(5)] assms(3,4)
      by (simp add: goals_saved_consistent_def)
  qed
qed

lemma findIndex_Some_object:
  "findIndex k (Some t) xs = Inr (Some i) \<Longrightarrow> i < length xs \<and> (\<exists>kvs. xs ! i = JObj kvs)"
proof (induction xs arbitrary: i)
  case Nil
  then show ?case by simp
next
  case (Cons x xs)
  show ?case
  proof (cases "get_prop x k")
    case (Inl e)
    then show ?thesis using Cons.prems by simp
  next
    case (Inr p)
    show ?thesis
    proof (cases "strict_eq p (Some t)")
      case True
      then have "p \<noteq> None" by (cases p) auto
      then have "\<exists>kvs. x = JObj kvs" using Inr by (cases x) auto
      then show ?thesis using Cons.prems Inr True by auto
    next
      case False
      then obtain j where "findIndex k (Some t) xs = Inr (Some j)" and "i = Suc j"
        using Cons.prems Inr by (auto split: sum.splits option.splits)
      then show ?thesis using Cons.IH by auto
    qed
  qed
qed

lemma reduce_amounts_numeric:
  "list_all has_amount ds \<Longrightarrow>
   reduce_amounts h (TotalNumber t) ds =
     Inr (TotalNumber (foldl (\<lambda>t a. Number_add t (Number a)) t (map amount ds)))"
proof (induction ds arbitrary: t)
  case Nil
  then show ?case by simp
next
  case (Cons d ds)
  then obtain a where a: "get_prop d ''amount'' = Inr (Some (JNum a))"
    by (auto simp add: has_amount_def split: sum.splits option.splits json.splits)
  then have "amount d = a" by (simp add: amount_def)
  then show ?case using Cons a by simp
qed

lemma reduce_amounts_float_sum:
  "list_all has_amount ds \<Longrightarrow>
   reduce_amounts h (TotalNumber (Number 0)) ds = Inr (TotalNumber (float_sum (map amount ds)))"
  by (simp add: reduce_amounts_numeric float_sum_def)

lemma list_all_update: "list_all P xs \<Longrightarrow> P y \<Longrightarrow> list_all P (xs[i := y])"
  using set_update_subset_insert [of xs i y] by (auto simp add: list_all_iff)

lemma list_all_splice1: "list_all P xs \<Longrightarrow> list_all P (splice1 i xs)"
  by (auto simp add: list_all_iff splice1_def dest: in_set_takeD in_set_dropD)

lemma new_goal_consistent:
  "goal_consistent (JObj (AList.update ''created'' c (AList.update ''savingsDetails'' (JArr [])
      (AList.update ''saved'' (JNum 0) kvs))))"
  by (simp add: goal_consistent_def update_conv')

lemma updated_goal_consistent:
  "list_all has_amount ds \<Longrightarrow> float_sum (map amount ds) = Number s \<Longrightarrow>
   goal_consistent (JObj (AList.update ''lastUpdated'' u (AList.update ''saved'' (JNum s)
      (AList.update ''savingsDetails'' (JArr ds) kvs))))"
  by (simp add: goal_consistent_def update_conv')

lemma consistent_goals_of:
  "goals_saved_consistent h w \<Longrightarrow>
   get_field (js_or (getData h ''goals'' w) goals_default) ''goals'' = Inr (Some (JArr gs)) \<Longrightarrow>
   list_all goal_consistent gs"
  by (simp add: goals_saved_consistent_def getGoals_def)

lemma addGoal_unfold:
  "addGoal h goal newId created w =
     (case get_field (js_or (getData h ''goals'' w) goals_default) ''goals'' of
        Inr (Some (JArr gs)) \<Rightarrow>
          (Inr (fst (setData h ''goals''
                  (with_field (js_or (getData h ''goals'' w) goals_default) ''goals''
                     (JArr (gs @ [JObj (AList.update ''created'' (JStr created)
                        (AList.update ''savingsDetails'' (JArr [])
                          (AList.update ''saved'' (JNum 0)
                            (AList.update ''id'' (JStr newId) goal))))]))) w)),
           snd (setData h ''goals''
                  (with_field (js_or (getData h ''goals'' w) goals_default) ''goals''
                     (JArr (gs @ [JObj (AList.update ''created'' (JStr created)
                        (AList.update ''savingsDetails'' (JArr [])
                          (AList.update ''saved'' (JNum 0)
                            (AList.update ''id'' (JStr newId) goal))))]))) w))
      | _ \<Rightarrow> (Inl TypeError, w))"
  by (simp add: addGoal_def Let_def split: sum.splits option.splits json.splits prod.splits)

lemma addGoal_preserves:
  assumes "json_roundtrip h" and "goals_saved_consistent h w" and "wf_json (JObj goal)"
  shows "goals_saved_consistent h (snd (addGoal h goal newId created w))"
proof (cases "\<exists>gs. get_field (js_or (getData h ''goals'' w) goals_default) ''goals'' = Inr (Some (JArr gs))")
  case False
  then have "snd (addGoal h goal newId created w) = w"
    by (auto simp add: addGoal_unfold split: sum.splits option.splits json.splits)
  then show ?thesis using assms(2) by simp
next
  case True
  then obtain gs where gs: "get_field (js_or (getData h ''goals'' w) goals_default) ''goals'' = Inr (Some (JArr gs))"
    by blast
  obtain kvs where d: "js_or (getData h ''goals'' w) goals_default = Val (JObj kvs)"
    and wk: "wf_json (JObj kvs)" and wg: "wf_json (JArr gs)"
    using goals_data [OF assms(1) gs] by blast
  have c: "list_all goal_consistent gs" by (rule consistent_goals_of [OF assms(2) gs])
  let ?g = "JObj (AList.update ''created'' (JStr created) (AList.update ''savingsDetails'' (JArr [])
      (AList.update ''saved'' (JNum 0) (AList.update ''id'' (JStr newId) goal))))"
  have "goal_consistent ?g" by (rule new_goal_consistent)
  then have la: "list_all goal_consistent (gs @ [?g])" using c by (simp add: list_all_iff)
  have mo: "map_of (AList.update ''goals'' (JArr (gs @ [?g])) kvs) ''goals'' = Some (JArr (gs @ [?g]))"
    by (simp add: update_conv')
  have "wf_json ?g" by (rule wf_new_goal [OF assms(3)])
  then have "wf_json (JArr (gs @ [?g]))" by (rule wf_append1 [OF wg])
  then have wf: "wf_json (JObj (AList.update ''goals'' (JArr (gs @ [?g])) kvs))"
    by (rule wf_goals_update [OF wk])
  have "goals_saved_consistent h (snd (setData h ''goals''
      (Val (JObj (AList.update ''goals'' (JArr (gs @ [?g])) kvs))) w))"
    by (rule goals_commit [OF assms(1,2) mo la wf])
  then show ?thesis using gs d by (simp add: addGoal_unfold)
qed

lemma deleteGoal_preserves:
  assumes "json_roundtrip h" and "goals_saved_consistent h w"
  shows "goals_saved_consistent h (snd (deleteGoal h goalId w))"
proof (cases "\<exists>gs. get_field (js_or (getData h ''goals'' w) goals_default) ''goals'' = Inr (Some (JArr gs))")
  case False
  then have "snd (deleteGoal h goalId w) = w"
    by (auto simp add: deleteGoal_def Let_def split: sum.splits option.splits json.splits)
  then show ?thesis using assms(2) by simp
next
  case True
  then obtain gs where gs: "get_field (js_or (getData h ''goals'' w) goals_default) ''goals'' = Inr (Some (JArr gs))"
    by blast
  obtain kvs where d: "js_or (getData h ''goals'' w) goals_default = Val (JObj kvs)"
    and wk: "wf_json (JObj kvs)" and wg: "wf_json (JArr gs)"
    using goals_data [OF assms(1) gs] by blast
  have c: "list_all goal_consistent gs" by (rule consistent_goals_of [OF assms(2) gs])
  show ?thesis
  proof (cases "findIndex ''id'' (Some goalId) gs")
    case (Inl e)
    then have "snd (deleteGoal h goalId w) = w" using gs by (simp add: deleteGoal_def Let_def)
    then show ?thesis using assms(2) by simp
  next
    case (Inr r)
    show ?thesis
    proof (cases r)
      case None
      then have "snd (deleteGoal h goalId w) = w" using gs Inr by (simp add: deleteGoal_def Let_def)
      then show ?thesis using assms(2) by simp
    next
      case (Some i)
      have la: "list_all goal_consistent (splice1 i gs)" by (rule list_all_splice1 [OF c])
      have mo: "map_of (AList.update ''goals'' (JArr (splice1 i gs)) kvs) ''goals'' = Some (JArr (splice1 i gs))"
        by (simp add: update_conv')
      have wf: "wf_json (JObj (AList.update ''goals'' (JArr (splice1 i gs)) kvs))"
        by (rule wf_goals_update [OF wk wf_splice1 [OF wg]])
      have "goals_saved_consistent h (snd (setData h ''goals''
          (Val (JObj (AList.update ''goals'' (JArr (splice1 i gs)) kvs))) w))"
        by (rule goals_commit [OF assms mo la wf])
      then show ?thesis using gs d Inr Some
        by (simp add: deleteGoal_def Let_def case_prod_beta)
    qed
  qed
qed

lemma updateGoalSavings_preserves:
  assumes "json_roundtrip h" and "goals_saved_consistent h w" and "wf_json (JArr ds)"
    and "list_all has_amount ds" and "finite_number (float_sum (map amount ds))"
  shows "goals_saved_consistent h (snd (updateGoalSavings h goalId ds u w))"
proof (cases "\<exists>gs. get_field (js_or (getData h ''goals'' w) goals_default) ''goals'' = Inr (Some (JArr gs))")
  case False
  then have "snd (updateGoalSavings h goalId ds u w) = w"
    by (auto simp add: updateGoalSavings_def Let_def split: sum.splits option.splits json.splits)
  then show ?thesis using assms(2) by simp
next
  case True
  then obtain gs where gs: "get_field (js_or (getData h ''goals'' w) goals_default) ''goals'' = Inr (Some (JArr gs))"
    by blast
  obtain kvs where d: "js_or (getData h ''goals'' w) goals_default = Val (JObj kvs)"
    and wk: "wf_json (JObj kvs)" and wg: "wf_json (JArr gs)"
    using goals_data [OF assms(1) gs] by blast
  have c: "list_all goal_consistent gs" by (rule consistent_goals_of [OF assms(2) gs])
  show ?thesis
  proof (cases "findIndex ''id'' (Some goalId) gs")
    case (Inl e)
    then have "snd (updateGoalSavings h goalId ds u w) = w"
      using gs by (simp add: updateGoalSavings_def Let_def)
    then show ?thesis using assms(2) by simp
  next
    case (Inr r)
    show ?thesis
    proof (cases r)
      case None
      then have "snd (updateGoalSavings h goalId ds u w) = w"
        using gs Inr by (simp add: updateGoalSavings_def Let_def)
      then show ?thesis using assms(2) by simp
    next
      case (Some i)
      obtain gk where g: "gs ! i = JObj gk" and len: "i < length gs"
        using findIndex_Some_object [of "''id''" goalId gs i] Inr Some by auto
      have wgk: "wf_json (JObj gk)" using wf_nth [OF wg len] unfolding g .
      obtain s where s: "float_sum (map amount ds) = Number s"
        using assms(5) by (cases "float_sum (map amount ds)") simp_all
      have red: "reduce_amounts h (TotalNumber (Number 0)) ds = Inr (TotalNumber (Number s))"
        using reduce_amounts_float_sum [OF assms(4)] s by simp
      let ?g = "JObj (AList.update ''lastUpdated'' (JStr u) (AList.update ''saved'' (JNum s)
          (AList.update ''savingsDetails'' (JArr ds) gk)))"
      have "goal_consistent ?g" by (rule updated_goal_consistent [OF assms(4) s])
      then have la: "list_all goal_consistent (gs[i := ?g])" by (rule list_all_update [OF c])
      have mo: "map_of (AList.update ''goals'' (JArr (gs[i := ?g])) kvs) ''goals'' = Some (JArr (gs[i := ?g]))"
        by (simp add: update_conv')
      have "wf_json ?g" by (rule wf_updated_goal [OF wgk assms(3)])
      then have "wf_json (JArr (gs[i := ?g]))" by (rule wf_list_update [OF wg])
      then have wf: "wf_json (JObj (AList.update ''goals'' (JArr (gs[i := ?g])) kvs))"
        by (rule wf_goals_update [OF wk])
      have "goals_saved_consistent h (snd (setData h ''goals''
          (Val (JObj (AList.update ''goals'' (JArr (gs[i := ?g])) kvs))) w))"
        by (rule goals_commit [OF assms(1,2) mo la wf])
      then show ?thesis using gs d Inr Some g red
        by (simp add: updateGoalSavings_def Let_def case_prod_beta)
    qed
  qed
qed

lemma goal_step_preserves:
  "json_roundtrip h \<Longrightarrow> goals_saved_consistent h w \<Longrightarrow> goal_op_ok op \<Longrightarrow>
   goals_saved_consistent h (goal_step h op w)"
  by (cases op) (simp_all add: addGoal_preserves deleteGoal_preserves updateGoalSavings_preserves)

lemma run_goal_ops_preserves:
  "json_roundtrip h \<Longrightarrow> goals_saved_consistent h w \<Longrightarrow> list_all goal_op_ok ops \<Longrightarrow>
   goals_saved_consistent h (run_goal_ops h ops w)"
  unfolding run_goal_ops_def
  by (induction ops arbitrary: w) (simp_all add: goal_step_preserves)

lemma addGoal_new_goal:
  assumes "json_roundtrip h" and "\<not> encrypting w" and "wf_json (JObj goal)"
    and "fst (addGoal h goal newId created w) = Inr True"
  shows "\<exists>gs g. getGoals h w = Inr (Some (JArr gs))
       \<and> getGoals h (snd (addGoal h goal newId created w)) = Inr (Some (JArr (gs @ [g])))
       \<and> get_prop g ''saved'' = Inr (Some (JNum 0))
       \<and> get_prop g ''savingsDetails'' = Inr (Some (JArr []))"
proof -
  have "\<exists>gs. get_field (js_or (getData h ''goals'' w) goals_default) ''goals'' = Inr (Some (JArr gs))"
    using assms(4) by (auto simp add: addGoal_unfold split: sum.splits option.splits json.splits)
  then obtain gs where gs: "get_field (js_or (getData h ''goals'' w) goals_default) ''goals'' = Inr (Some (JArr gs))"
    by blast
  obtain kvs where d: "js_or (getData h ''goals'' w) goals_default = Val (JObj kvs)"
    and wk: "wf_json (JObj kvs)" and wg: "wf_json (JArr gs)"
    using goals_data [OF assms(1) gs] by blast
  let ?g = "JObj (AList.update ''created'' (JStr created) (AList.update ''savingsDetails'' (JArr [])
      (AList.update ''saved'' (JNum 0) (AList.update ''id'' (JStr newId) goal))))"
  let ?kvs = "AList.update ''goals'' (JArr (gs @ [?g])) kvs"
  have eq: "addGoal h goal newId created w =
      (Inr (fst (setData h ''goals'' (Val (JObj ?kvs)) w)), snd (setData h ''goals'' (Val (JObj ?kvs)) w))"
    using gs d by (simp add: addGoal_unfold)
  then have ok: "fst (setData h ''goals'' (Val (JObj ?kvs)) w)" using assms(4) by simp
  have "wf_json ?g" by (rule wf_new_goal [OF assms(3)])
  then have "wf_json (JArr (gs @ [?g]))" by (rule wf_append1 [OF wg])
  then have wf: "wf_json (JObj ?kvs)" by (rule wf_goals_update [OF wk])
  have "getGoals h (snd (setData h ''goals'' (Val (JObj ?kvs)) w)) = Inr (map_of ?kvs ''goals'')"
    by (rule getGoals_after_commit [OF assms(1,2) ok wf])
  then have after: "getGoals h (snd (addGoal h goal newId created w)) = Inr (Some (JArr (gs @ [?g])))"
    by (simp add: eq update_conv')
  have before: "getGoals h w = Inr (Some (JArr gs))" using gs by (simp add: getGoals_def)
  have "get_prop ?g ''saved'' = Inr (Some (JNum 0))" "get_prop ?g ''savingsDetails'' = Inr (Some (JArr []))"
    by (simp_all add: update_conv')
  then show ?thesis using before after by blast
qed

lemma updateGoalSavings_sets_saved:
  assumes "json_roundtrip h" and "\<not> encrypting w" and "wf_json (JArr ds)"
    and "fst (updateGoalSavings h goalId ds u w) = Inr True" and "list_all has_amount ds"
  shows "\<exists>gs i g. getGoals h w = Inr (Some (JArr gs)) \<and> i < length gs
       \<and> getGoals h (snd (updateGoalSavings h goalId ds u w)) = Inr (Some (JArr (gs[i := g])))
       \<and> get_prop g ''saved'' = Inr (Some (json_of_total (TotalNumber (float_sum (map amount ds)))))
       \<and> get_prop g ''savingsDetails'' = Inr (Some (JArr ds))"
proof -
  have "\<exists>gs. get_field (js_or (getData h ''goals'' w) goals_default) ''goals'' = Inr (Some (JArr gs))"
    using assms(4)
    by (auto simp add: updateGoalSavings_def Let_def split: sum.splits option.splits json.splits)
  then obtain gs where gs: "get_field (js_or (getData h ''goals'' w) goals_default) ''goals'' = Inr (Some (JArr gs))"
    by blast
  obtain kvs where d: "js_or (getData h ''goals'' w) goals_default = Val (JObj kvs)"
    and wk: "wf_json (JObj kvs)" and wg: "wf_json (JArr gs)"
    using goals_data [OF assms(1) gs] by blast
  obtain i where i: "findIndex ''id'' (Some goalId) gs = Inr (Some i)"
    using assms(4) gs
    by (auto simp add: updateGoalSavings_def Let_def split: sum.splits option.splits)
  obtain gk where g: "gs ! i = JObj gk" and len: "i < length gs"
    using findIndex_Some_object [OF i] by auto
  define s where "s = json_of_total (TotalNumber (float_sum (map amount ds)))"
  have red: "reduce_amounts h (TotalNumber (Number 0)) ds = Inr (TotalNumber (float_sum (map amount ds)))"
    by (rule reduce_amounts_float_sum [OF assms(5)])
  have ws: "wf_json s" unfolding s_def by (cases "float_sum (map amount ds)") simp_all
  let ?g = "JObj (AList.update ''lastUpdated'' (JStr u) (AList.update ''saved'' s
      (AList.update ''savingsDetails'' (JArr ds) gk)))"
  let ?kvs = "AList.update ''goals'' (JArr (gs[i := ?g])) kvs"
  have eq: "updateGoalSavings h goalId ds u w =
      (Inr (fst (setData h ''goals'' (Val (JObj ?kvs)) w)), snd (setData h ''goals'' (Val (JObj ?kvs)) w))"
    using gs d i g red by (simp add: updateGoalSavings_def Let_def case_prod_beta s_def)
  then have ok: "fst (setData h ''goals'' (Val (JObj ?kvs)) w)" using assms(4) by simp
  have wgk: "wf_json (JObj gk)" using wf_nth [OF wg len] unfolding g .
  have "wf_json ?g" using wgk assms(3) ws by (intro wf_update) simp_all
  then have "wf_json (JArr (gs[i := ?g]))" by (rule wf_list_update [OF wg])
  then have wf: "wf_json (JObj ?kvs)" by (rule wf_goals_update [OF wk])
  have "getGoals h (snd (setData h ''goals'' (Val (JObj ?kvs)) w)) = Inr (map_of ?kvs ''goals'')"
    by (rule getGoals_after_commit [OF assms(1,2) ok wf])
  then have after: "getGoals h (snd (updateGoalSavings h goalId ds u w)) = Inr (Some (JArr (gs[i := ?g])))"
    by (simp add: eq update_conv')
  have before: "getGoals h w = Inr (Some (JArr gs))" using gs by (simp add: getGoals_def)
  have "get_prop ?g ''saved'' = Inr (Some (json_of_total (TotalNumber (float_sum (map amount ds)))))"
    "get_prop ?g ''savingsDetails'' = Inr (Some (JArr ds))"
    by (simp_all add: update_conv' s_def)
  then show ?thesis using before after len by blast
qed

text \<open>
  C9. The saved total of a goal. If every goal of the goals RecordSet is consistent
  (\<open>saved\<close> is the sum of the amounts of \<open>savingsDetails\<close> as doubles are added: from
  \<open>0\<close>, left to right, every partial sum rounded to the nearest double), it still is
  after any sequence of \<open>addGoal\<close>, \<open>deleteGoal\<close> and \<open>updateGoalSavings\<close> calls whose
  arguments are well-formed values, whose savings amounts are numbers and whose sums do
  not overflow, for a host whose JSON coding round-trips. A call of \<open>addGoal\<close> that
  succeeds on a readable store appends one goal, with \<open>saved = 0\<close> and an empty
  \<open>savingsDetails\<close>; a call of \<open>updateGoalSavings\<close> with numeric amounts that succeeds
  replaces one goal by one whose \<open>savingsDetails\<close> is the list given and whose \<open>saved\<close> is
  that rounded sum of its amounts, or \<open>null\<close> when the sum overflows.
\<close>

theorem goals_saved_invariant:
  assumes "json_roundtrip h" and "goals_saved_consistent h w" and "list_all goal_op_ok ops"
  shows "goals_saved_consistent h (run_goal_ops h ops w)
       \<and> (\<not> encrypting w \<and> wf_json (JObj goal)
            \<and> fst (addGoal h goal newId created w) = Inr True \<longrightarrow>
            (\<exists>gs g. getGoals h w = Inr (Some (JArr gs))
               \<and> getGoals h (snd (addGoal h goal newId created w)) = Inr (Some (JArr (gs @ [g])))
               \<and> get_prop g ''saved'' = Inr (Some (JNum 0))
               \<and> get_prop g ''savingsDetails'' = Inr (Some (JArr []))))
       \<and> (\<not> encrypting w \<and> wf_json (JArr details) \<and> list_all has_amount details
            \<and> fst (updateGoalSavings h goalId details lastUpdated w) = Inr True \<longrightarrow>
            (\<exists>gs i g. getGoals h w = Inr (Some (JArr gs)) \<and> i < length gs
               \<and> getGoals h (snd (updateGoalSavings h goalId details lastUpdated w))
                   = Inr (Some (JArr (gs[i := g])))
               \<and> get_prop g ''saved''
                   = Inr (Some (json_of_total (TotalNumber (float_sum (map amount details)))))
               \<and> get_prop g ''savingsDetails'' = Inr (Some (JArr details))))"
  using run_goal_ops_preserves [OF assms] addGoal_new_goal [OF assms(1)]
    updateGoalSavings_sets_saved [OF assms(1)]
  by blast

lemma not_encrypting_plain_world: "\<not> encrypting plain_world"
  by (simp add: encrypting_def plain_world_def)

lemma sample_getData_plain:
  "\<not> encrypting w \<Longrightarrow> getItem (localStorage w) (storagePrefix @ k) = Some (sample_stringify v) \<Longrightarrow>
   wf_json v \<Longrightarrow> getData sample_host k w = Val v"
  by (auto simp add: getData_def encrypting_def dataManager_decryptData_def
      sample_parse_stringify sample_stringify_nonempty)

lemma sample_setData_plain:
  "\<not> encrypting w \<Longrightarrow>
   setData sample_host k (Val v) w =
     (True, w\<lparr>localStorage := setItem (localStorage w) (storagePrefix @ k) (sample_stringify v)\<rparr>)"
  by (simp add: setData_not_encrypting)

lemma sample_savings_numeric:
  "list_all has_amount sample_savings" "wf_json (JArr sample_savings)"
  by (simp_all add: sample_savings_def has_amount_def key_order_def)

lemma wf_json_of_total [simp]: "wf_json (json_of_total t)"
proof (cases t)
  case (TotalNumber n)
  then show ?thesis by (cases n) simp_all
next
  case (TotalString s)
  then show ?thesis by simp
qed

lemma sample_goals_run:
  "getGoals sample_host (run_goal_ops sample_host sample_goal_ops plain_world) =
     Inr (Some (JArr
       [JObj [(''name'', JStr ''Car''), (''amount'', JNum 1000), (''id'', JStr ''g1''),
              (''saved'', JNum 12), (''savingsDetails'', JArr sample_savings),
              (''created'', JStr ''t0''), (''lastUpdated'', JStr ''t1'')]]))"
proof -
  let ?g1 = "JObj [(''name'', JStr ''Car''), (''amount'', JNum 1000), (''id'', JStr ''g1''),
              (''saved'', JNum 0), (''savingsDetails'', JArr []), (''created'', JStr ''t0'')]"
  let ?g1' = "JObj [(''name'', JStr ''Car''), (''amount'', JNum 1000), (''id'', JStr ''g1''),
              (''saved'', JNum 12), (''savingsDetails'', JArr sample_savings),
              (''created'', JStr ''t0''), (''lastUpdated'', JStr ''t1'')]"
  let ?g2 = "JObj [(''name'', JStr ''Car''), (''amount'', JNum 1000), (''id'', JStr ''g2''),
              (''saved'', JNum 0), (''savingsDetails'', JArr []), (''created'', JStr ''t2'')]"
  define store where "store gs = plain_world\<lparr>localStorage :=
      setItem (localStorage plain_world) (storagePrefix @ ''goals'')
        (sample_stringify (JObj [(''goals'', JArr gs)]))\<rparr>" for gs
  have ne: "\<not> encrypting (store gs)" for gs
    by (simp add: store_def encrypting_def plain_world_def)
  have rd: "getData sample_host ''goals'' (store gs) = Val (JObj [(''goals'', JArr gs)])"
    if "wf_json (JArr gs)" for gs
    using that
    by (intro sample_getData_plain [OF ne])
      (simp_all add: store_def getItem_setItem key_order_def del: sample_stringify.simps)
  have rd1: "getData sample_host ''goals'' (store [?g1]) = Val (JObj [(''goals'', JArr [?g1])])"
    by (rule rd) (simp add: key_order_def)
  have rd2: "getData sample_host ''goals'' (store [?g1']) = Val (JObj [(''goals'', JArr [?g1'])])"
    by (rule rd) (simp add: key_order_def sample_savings_def)
  have rd3: "getData sample_host ''goals'' (store [?g1', ?g2]) = Val (JObj [(''goals'', JArr [?g1', ?g2])])"
    by (rule rd) (simp add: key_order_def sample_savings_def)
  have rd0: "getData sample_host ''goals'' plain_world = Val JNull"
    by (simp add: getData_def plain_world_def getItem_def storagePrefix_def)
  have wr: "snd (setData sample_host ''goals'' (Val (JObj [(''goals'', JArr gs')])) (store gs)) = store gs'"
    for gs gs'
    unfolding sample_setData_plain [OF ne]
    by (simp add: store_def setItem_def del: sample_stringify.simps)
  have wr0: "snd (setData sample_host ''goals'' (Val (JObj [(''goals'', JArr gs')])) plain_world) = store gs'"
    for gs'
    unfolding sample_setData_plain [OF not_encrypting_plain_world]
    by (simp add: store_def del: sample_stringify.simps)
  have s1: "goal_step sample_host (AddGoal sample_goal ''g1'' ''t0'') plain_world = store [?g1]"
    using wr0 [of "[?g1]"]
    by (simp add: addGoal_unfold rd0 js_or_def goals_default_def sample_goal_def)
  have s2: "goal_step sample_host (UpdateGoalSavings (JStr ''g1'') sample_savings ''t1'') (store [?g1])
      = store [?g1']"
    using wr [of "[?g1']" "[?g1]"]
    by (simp add: updateGoalSavings_def rd1 js_or_def Let_def case_prod_beta
        reduce_amounts_float_sum [OF sample_savings_numeric(1)] sample_float_sum)
  have s3: "goal_step sample_host (AddGoal sample_goal ''g2'' ''t2'') (store [?g1']) = store [?g1', ?g2]"
    using wr [of "[?g1', ?g2]" "[?g1']"]
    by (simp add: addGoal_unfold rd2 js_or_def sample_goal_def)
  have s4: "goal_step sample_host (DeleteGoal (JStr ''g2'')) (store [?g1', ?g2]) = store [?g1']"
    using wr [of "[?g1']" "[?g1', ?g2]"]
    by (simp add: deleteGoal_def rd3 js_or_def Let_def case_prod_beta splice1_def)
  have "run_goal_ops sample_host sample_goal_ops plain_world = store [?g1']"
    by (simp add: run_goal_ops_def sample_goal_ops_def s1 s2 s3 s4
        del: goal_step.simps)
  then show ?thesis by (simp add: getGoals_def rd2 js_or_def)
qed


lemma sample_plain_consistent: "goals_saved_consistent sample_host plain_world"
  by (simp add: goals_saved_consistent_def getGoals_def getData_def plain_world_def getItem_def
      storagePrefix_def js_or_def goals_default_def)

lemma sample_addGoal_run:
  "fst (addGoal sample_host sample_goal ''g1'' ''t0'' plain_world) = Inr True"
  unfolding addGoal_unfold
  by (simp add: getData_def plain_world_def getItem_def storagePrefix_def js_or_def goals_default_def
      sample_setData_plain [OF not_encrypting_plain_world, unfolded plain_world_def storagePrefix_def])

text \<open>
  One goal added and its savings set, on the sample host: the goal that \<open>getGoals()\<close>
  returns afterwards.
\<close>

lemma sample_update_run:
  assumes "list_all has_amount ds" and "wf_json (JArr ds)"
  shows "getGoals sample_host (run_goal_ops sample_host (sample_update_ops ds) plain_world) =
     Inr (Some (JArr [sample_updated_goal ds]))"
    and "\<not> encrypting (goal_step sample_host (AddGoal sample_goal ''g1'' ''t0'') plain_world)"
    and "fst (updateGoalSavings sample_host (JStr ''g1'') ds ''t1''
           (goal_step sample_host (AddGoal sample_goal ''g1'' ''t0'') plain_world)) = Inr True"
proof -
  let ?g1 = "JObj [(''name'', JStr ''Car''), (''amount'', JNum 1000), (''id'', JStr ''g1''),
              (''saved'', JNum 0), (''savingsDetails'', JArr []), (''created'', JStr ''t0'')]"
  define store where "store gs = plain_world\<lparr>localStorage :=
      setItem (localStorage plain_world) (storagePrefix @ ''goals'')
        (sample_stringify (JObj [(''goals'', JArr gs)]))\<rparr>" for gs
  have ne: "\<not> encrypting (store gs)" for gs
    by (simp add: store_def encrypting_def plain_world_def)
  have rd: "getData sample_host ''goals'' (store gs) = Val (JObj [(''goals'', JArr gs)])"
    if "wf_json (JArr gs)" for gs
    using that
    by (intro sample_getData_plain [OF ne])
      (simp_all add: store_def getItem_setItem key_order_def del: sample_stringify.simps)
  have rd1: "getData sample_host ''goals'' (store [?g1]) = Val (JObj [(''goals'', JArr [?g1])])"
    by (rule rd) (simp add: key_order_def)
  have rd2: "getData sample_host ''goals'' (store [sample_updated_goal ds])
      = Val (JObj [(''goals'', JArr [sample_updated_goal ds])])"
    using assms(2) by (intro rd) (simp add: key_order_def sample_updated_goal_def)
  have rd0: "getData sample_host ''goals'' plain_world = Val JNull"
    by (simp add: getData_def plain_world_def getItem_def storagePrefix_def)
  have wr: "snd (setData sample_host ''goals'' (Val (JObj [(''goals'', JArr gs')])) (store gs)) = store gs'"
    for gs gs'
    unfolding sample_setData_plain [OF ne]
    by (simp add: store_def setItem_def del: sample_stringify.simps)
  have wr0: "snd (setData sample_host ''goals'' (Val (JObj [(''goals'', JArr gs')])) plain_world) = store gs'"
    for gs'
    unfolding sample_setData_plain [OF not_encrypting_plain_world]
    by (simp add: store_def del: sample_stringify.simps)
  have s1: "goal_step sample_host (AddGoal sample_goal ''g1'' ''t0'') plain_world = store [?g1]"
    using wr0 [of "[?g1]"]
    by (simp add: addGoal_unfold rd0 js_or_def goals_default_def sample_goal_def)
  have s2: "goal_step sample_host (UpdateGoalSavings (JStr ''g1'') ds ''t1'') (store [?g1])
      = store [sample_updated_goal ds]"
    using wr [of "[sample_updated_goal ds]" "[?g1]"]
    by (simp add: updateGoalSavings_def rd1 js_or_def Let_def case_prod_beta
        reduce_amounts_float_sum [OF assms(1)] sample_updated_goal_def)
  have "run_goal_ops sample_host (sample_update_ops ds) plain_world = store [sample_updated_goal ds]"
    by (simp add: run_goal_ops_def sample_update_ops_def s1 s2 del: goal_step.simps)
  then show "getGoals sample_host (run_goal_ops sample_host (sample_update_ops ds) plain_world) =
     Inr (Some (JArr [sample_updated_goal ds]))"
    by (simp add: getGoals_def rd2 js_or_def)
  show "\<not> encrypting (goal_step sample_host (AddGoal sample_goal ''g1'' ''t0'') plain_world)"
    unfolding s1 by (rule ne)
  have ok: "fst (setData sample_host ''goals'' v (store gs)) = True" for v gs
  proof (cases v)
    case (Val x)
    then show ?thesis by (simp add: sample_setData_plain [OF ne])
  next
    case (PromiseObj ps p)
    then show ?thesis using ne [of gs] by (simp add: setData_not_encrypting)
  qed
  show "fst (updateGoalSavings sample_host (JStr ''g1'') ds ''t1''
           (goal_step sample_host (AddGoal sample_goal ''g1'' ''t0'') plain_world)) = Inr True"
    unfolding s1
    by (simp add: updateGoalSavings_def rd1 js_or_def Let_def case_prod_beta
        reduce_amounts_float_sum [OF assms(1)] ok)
qed

lemma sample_rounding_numeric:
  "list_all has_amount sample_rounding_savings" "wf_json (JArr sample_rounding_savings)"
  by (simp_all add: sample_rounding_savings_def has_amount_def key_order_def)

lemma sample_overflow_numeric:
  "list_all has_amount sample_overflow_savings" "wf_json (JArr sample_overflow_savings)"
  by (simp_all add: sample_overflow_savings_def has_amount_def key_order_def)

lemma sample_updated_goal_props:
  "get_prop (sample_updated_goal ds) ''saved''
     = Inr (Some (json_of_total (TotalNumber (float_sum (map amount ds)))))"
  "get_prop (sample_updated_goal ds) ''savingsDetails'' = Inr (Some (JArr ds))"
  by (simp_all add: sample_updated_goal_def)

theorem goals_saved_invariant_witness:
  "json_roundtrip sample_host \<and> goals_saved_consistent sample_host plain_world
   \<and> list_all goal_op_ok sample_goal_ops
   \<and> goals_saved_consistent sample_host (run_goal_ops sample_host sample_goal_ops plain_world)
   \<and> getGoals sample_host (run_goal_ops sample_host sample_goal_ops plain_world) =
       Inr (Some (JArr
         [JObj [(''name'', JStr ''Car''), (''amount'', JNum 1000), (''id'', JStr ''g1''),
                (''saved'', JNum 12), (''savingsDetails'', JArr sample_savings),
                (''created'', JStr ''t0''), (''lastUpdated'', JStr ''t1'')]]))
   \<and> \<not> encrypting plain_world \<and> wf_json (JObj sample_goal)
   \<and> fst (addGoal sample_host sample_goal ''g1'' ''t0'' plain_world) = Inr True
   \<and> \<not> encrypting (goal_step sample_host (AddGoal sample_goal ''g1'' ''t0'') plain_world)
   \<and> wf_json (JArr sample_savings) \<and> list_all has_amount sample_savings
   \<and> fst (updateGoalSavings sample_host (JStr ''g1'') sample_savings ''t1''
          (goal_step sample_host (AddGoal sample_goal ''g1'' ''t0'') plain_world)) = Inr True
   \<and> float_sum (map amount sample_savings) = Number 12"
proof -
  have wg: "wf_json (JObj sample_goal)" by (simp add: sample_goal_def key_order_def)
  then have na: "list_all goal_op_ok sample_goal_ops"
    using sample_savings_numeric by (simp add: sample_goal_ops_def sample_float_sum)
  note t = goals_saved_invariant [OF sample_json_roundtrip sample_plain_consistent na, THEN conjunct1]
  note u = sample_update_run(2,3) [OF sample_savings_numeric]
  show ?thesis
    using t sample_json_roundtrip sample_plain_consistent na sample_goals_run
      not_encrypting_plain_world wg sample_addGoal_run u sample_savings_numeric sample_float_sum
    by blast
qed

text \<open>
  C9, as the specification words it, fails. On the sample host a goal is added to the
  empty store and its savings are set. With the amounts \<open>2^53\<close> and \<open>1\<close> the goal that
  \<open>getGoals()\<close> returns has \<open>saved = 2^53\<close>, and the sum of the amounts is \<open>2^53 + 1\<close>;
  with \<open>2^1023\<close> twice it has \<open>saved = null\<close>.
\<close>

theorem goals_saved_not_exact_sum:
  "list_all has_amount sample_rounding_savings
   \<and> getGoals sample_host (run_goal_ops sample_host (sample_update_ops sample_rounding_savings) plain_world)
       = Inr (Some (JArr [sample_updated_goal sample_rounding_savings]))
   \<and> get_prop (sample_updated_goal sample_rounding_savings) ''saved'' = Inr (Some (JNum (2 ^ 53)))
   \<and> get_prop (sample_updated_goal sample_rounding_savings) ''savingsDetails''
       = Inr (Some (JArr sample_rounding_savings))
   \<and> sum_list (map amount sample_rounding_savings) = 2 ^ 53 + 1
   \<and> \<not> saved_is_exact_sum (sample_updated_goal sample_rounding_savings)
   \<and> list_all has_amount sample_overflow_savings
   \<and> getGoals sample_host (run_goal_ops sample_host (sample_update_ops sample_overflow_savings) plain_world)
       = Inr (Some (JArr [sample_updated_goal sample_overflow_savings]))
   \<and> get_prop (sample_updated_goal sample_overflow_savings) ''saved'' = Inr (Some JNull)
   \<and> get_prop (sample_updated_goal sample_overflow_savings) ''savingsDetails''
       = Inr (Some (JArr sample_overflow_savings))
   \<and> \<not> saved_is_exact_sum (sample_updated_goal sample_overflow_savings)
   \<and> \<not> goal_consistent (sample_updated_goal sample_overflow_savings)"
proof -
  have r1: "get_prop (sample_updated_goal sample_rounding_savings) ''saved'' = Inr (Some (JNum (2 ^ 53)))"
    by (simp add: sample_updated_goal_props rounding_float_sum)
  have r2: "sum_list (map amount sample_rounding_savings) = 2 ^ 53 + 1"
    by (simp add: sample_rounding_savings_def amount_def)
  have r3: "\<not> saved_is_exact_sum (sample_updated_goal sample_rounding_savings)"
    unfolding saved_is_exact_sum_def r1 sample_updated_goal_props(2) using r2 by simp
  have o1: "get_prop (sample_updated_goal sample_overflow_savings) ''saved'' = Inr (Some JNull)"
    by (simp add: sample_updated_goal_props overflow_float_sum)
  have o2: "\<not> saved_is_exact_sum (sample_updated_goal sample_overflow_savings)"
    unfolding saved_is_exact_sum_def o1 by simp
  have o3: "\<not> goal_consistent (sample_updated_goal sample_overflow_savings)"
    unfolding goal_consistent_def o1 by simp
  show ?thesis
    using sample_rounding_numeric(1) sample_update_run(1) [OF sample_rounding_numeric] r1
      sample_updated_goal_props(2) [of sample_rounding_savings] r2 r3
      sample_overflow_numeric(1) sample_update_run(1) [OF sample_overflow_numeric] o1
      sample_updated_goal_props(2) [of sample_overflow_savings] o2 o3
    by blast
qed

section \<open>Assets\<close>

lemma strict_eq_string: "strict_eq p (Some (JStr n)) = (p = Some (JStr n))"
proof (cases p)
  case None
  then show ?thesis by simp
next
  case (Some v)
  then show ?thesis by (cases v) auto
qed

lemma findIndex_None:
  "findIndex k t xs = Inr None \<Longrightarrow> \<forall>x \<in> set xs. \<exists>p. get_prop x k = Inr p \<and> \<not> strict_eq p t"
  by (induction xs) (auto split: sum.splits option.splits if_splits)

lemma findIndex_Some:
  "findIndex k t xs = Inr (Some i) \<Longrightarrow>
   i < length xs \<and> (\<exists>p. get_prop (xs ! i) k = Inr p \<and> strict_eq p t)"
proof (induction xs arbitrary: i)
  case Nil
  then show ?case by simp
next
  case (Cons x xs)
  show ?case
  proof (cases "get_prop x k")
    case (Inl e)
    then show ?thesis using Cons.prems by simp
  next
    case (Inr p)
    show ?thesis
    proof (cases "strict_eq p t")
      case True
      then show ?thesis using Cons.prems Inr by auto
    next
      case False
      then obtain j where "findIndex k t xs = Inr (Some j)" and "i = Suc j"
        using Cons.prems Inr by (auto split: sum.splits option.splits)
      then show ?thesis using Cons.IH by auto
    qed
  qed
qed

lemma map_of_obj_lit_Cons:
  "map_of (obj_lit ((k', x) # r)) k =
     (if k = k' then (case x of Some v \<Rightarrow> Some v | None \<Rightarrow> map_of (obj_lit r) k)
      else map_of (obj_lit r) k)"
  by (cases x) simp_all

lemma getAssets_after_commit:
  assumes "json_roundtrip h" and "\<not> encrypting w"
    and "fst (setData h ''assets'' (Val (JObj kvs)) w)" and "wf_json (JObj kvs)"
  shows "getAssets h (snd (setData h ''assets'' (Val (JObj kvs)) w)) = Inr (map_of kvs ''assets'')"
    and "getAssetHistory h (snd (setData h ''assets'' (Val (JObj kvs)) w)) = Inr (map_of kvs ''history'')"
  using getData_after_setData_plain [OF assms]
  by (simp_all add: getAssets_def getAssetHistory_def js_or_def)

lemma assets_commit:
  assumes "json_roundtrip h" and "names_unique h w"
    and "map_of kvs ''assets'' = Some (JArr as)" and "distinct (map asset_name as)"
    and "wf_json (JObj kvs)"
  shows "names_unique h (snd (setData h ''assets'' (Val (JObj kvs)) w))"
proof (cases "fst (setData h ''assets'' (Val (JObj kvs)) w)")
  case False
  then have "getAssets h (snd (setData h ''assets'' (Val (JObj kvs)) w)) = getAssets h w"
    by (simp add: getAssets_def setData_failed_getData)
  then show ?thesis using assms(2) by (simp add: names_unique_def)
next
  case True
  show ?thesis
  proof (cases "encrypting w")
    case e: True
    obtain p where "getData h ''assets'' (snd (setData h ''assets'' (Val (JObj kvs)) w)) = PromiseObj [] p"
      using getData_after_setData_encrypting [OF e True] by blast
    then show ?thesis by (simp add: names_unique_def getAssets_def js_or_def)
  next
    case False
    then show ?thesis
      using getAssets_after_commit(1) [OF assms(1) False True assms(5)] assms(3,4)
      by (simp add: names_unique_def)
  qed
qed

lemma unique_names_of:
  "names_unique h w \<Longrightarrow>
   get_field (js_or (getData h ''assets'' w) assets_default) ''assets'' = Inr (Some (JArr as)) \<Longrightarrow>
   distinct (map asset_name as)"
  by (simp add: names_unique_def getAssets_def)

lemma wf_assets_default: "wf_json (JObj [(''assets'', JArr []), (''history'', JArr [])])"
  by (simp add: key_order_def)

lemma assets_data_shape:
  assumes "json_roundtrip h"
    and "get_field (js_or (getData h ''assets'' w) assets_default) ''assets'' = Inr (Some (JArr as))"
  shows "\<exists>kvs. js_or (getData h ''assets'' w) assets_default = Val (JObj kvs)
       \<and> map_of kvs ''assets'' = Some (JArr as) \<and> wf_json (JObj kvs) \<and> wf_json (JArr as)"
  using record_data_wf [OF assms(1) wf_assets_default assms(2) [unfolded assets_default_def]]
  unfolding assets_default_def by blast

lemma wf_get_prop: "wf_json a \<Longrightarrow> get_prop a k = Inr (Some v) \<Longrightarrow> wf_json v"
  by (cases a) (auto dest: map_of_SomeD)

lemma wf_history_entry:
  assumes "wf_json a" and "get_prop a ''name'' = Inr n" and "get_prop a ''type'' = Inr t"
    and "get_prop a ''value'' = Inr v"
  shows "wf_json (JObj (obj_lit
           [(''id'', Some (JStr i)), (''name'', n), (''type'', t), (''value'', v),
            (''timestamp'', Some (JStr now)), (''action'', Some (JStr act))]))"
proof (rule wf_obj_lit)
  have "\<And>x. n = Some x \<Longrightarrow> wf_json x" "\<And>x. t = Some x \<Longrightarrow> wf_json x"
    "\<And>x. v = Some x \<Longrightarrow> wf_json x"
    using assms wf_get_prop by blast+
  then show "\<forall>kv \<in> set [(''id'', Some (JStr i)), (''name'', n), (''type'', t), (''value'', v),
            (''timestamp'', Some (JStr now)), (''action'', Some (JStr act))].
       \<forall>x. snd kv = Some x \<longrightarrow> wf_json x"
    by auto
qed simp_all

lemma wf_update_entry:
  assumes "wf_json a" and "get_prop a ''name'' = Inr n" and "get_prop a ''type'' = Inr t"
    and "get_prop a ''value'' = Inr v" and "wf_json b" and "get_prop b ''value'' = Inr p"
  shows "wf_json (JObj (obj_lit
           [(''id'', Some (JStr i)), (''name'', n), (''type'', t), (''value'', v),
            (''previousValue'', p), (''timestamp'', Some (JStr now)), (''action'', Some (JStr act))]))"
proof (rule wf_obj_lit)
  have "\<And>x. n = Some x \<Longrightarrow> wf_json x" "\<And>x. t = Some x \<Longrightarrow> wf_json x"
    "\<And>x. v = Some x \<Longrightarrow> wf_json x" "\<And>x. p = Some x \<Longrightarrow> wf_json x"
    using assms wf_get_prop by blast+
  then show "\<forall>kv \<in> set [(''id'', Some (JStr i)), (''name'', n), (''type'', t), (''value'', v),
            (''previousValue'', p), (''timestamp'', Some (JStr now)), (''action'', Some (JStr act))].
       \<forall>x. snd kv = Some x \<longrightarrow> wf_json x"
    by auto
qed simp_all

lemma wf_assets_update:
  assumes "wf_json (JObj kvs)" and "wf_json (JArr as)" and "wf_json (JArr hs)"
  shows "wf_json (JObj (AList.update ''history'' (JArr hs) (AList.update ''assets'' (JArr as) kvs)))"
proof -
  have "wf_json (JObj (AList.update ''assets'' (JArr as) kvs))"
    by (rule wf_update [OF assms(1,2)]) simp
  then show ?thesis by (rule wf_update [OF _ assms(3)]) simp
qed

lemma addAsset_branch_wf:
  assumes "wf_json (JObj asset)" and "wf_json (JArr as)"
    and "findIndex ''name'' t as = Inr existing"
    and "addAsset_branch asset now id1 id2 as existing = Inr (as', entry)"
  shows "wf_json (JArr as')" and "wf_json entry"
proof -
  have props: "get_prop (JObj asset) ''name'' = Inr (map_of asset ''name'')"
    "get_prop (JObj asset) ''type'' = Inr (map_of asset ''type'')"
    "get_prop (JObj asset) ''value'' = Inr (map_of asset ''value'')"
    by simp_all
  have "wf_json (JArr as') \<and> wf_json entry"
  proof (cases existing)
    case None
    have as': "as' = as @ [JObj (AList.update ''lastUpdated'' (JStr now)
        (AList.update ''created'' (JStr now) (AList.update ''id'' (JStr id1) asset)))]"
      and entry: "entry = JObj (obj_lit
                 [(''id'', Some (JStr id2)),
                  (''name'', map_of asset ''name''),
                  (''type'', map_of asset ''type''),
                  (''value'', map_of asset ''value''),
                  (''timestamp'', Some (JStr now)),
                  (''action'', Some (JStr ''create''))])"
      using assms(4) None by (auto simp add: addAsset_branch_def)
    have "wf_json (JObj (AList.update ''lastUpdated'' (JStr now)
        (AList.update ''created'' (JStr now) (AList.update ''id'' (JStr id1) asset))))"
      using assms(1) by (intro wf_update) simp_all
    then have "wf_json (JArr as')" unfolding as' by (rule wf_append1 [OF assms(2)])
    moreover have "wf_json entry"
      unfolding entry by (rule wf_history_entry [OF assms(1) props])
    ultimately show ?thesis by blast
  next
    case (Some i)
    have i: "i < length as" using findIndex_Some [of "''name''" t as i] assms(3) Some by simp
    obtain oldValue where ov: "get_prop (as ! i) ''value'' = Inr oldValue"
      using assms(4) Some by (auto simp add: addAsset_branch_def split: sum.splits)
    have as': "as' = as[i := JObj (AList.update ''lastUpdated'' (JStr now) asset)]"
      and entry: "entry = JObj (obj_lit
                      [(''id'', Some (JStr id1)),
                       (''name'', map_of asset ''name''),
                       (''type'', map_of asset ''type''),
                       (''value'', map_of asset ''value''),
                       (''previousValue'', oldValue),
                       (''timestamp'', Some (JStr now)),
                       (''action'', Some (JStr ''update''))])"
      using assms(4) Some ov by (auto simp add: addAsset_branch_def)
    have "wf_json (JObj (AList.update ''lastUpdated'' (JStr now) asset))"
      using assms(1) by (intro wf_update) simp_all
    then have "wf_json (JArr as')" unfolding as' by (rule wf_list_update [OF assms(2)])
    moreover have "wf_json entry"
      unfolding entry by (rule wf_update_entry [OF assms(1) props wf_nth [OF assms(2) i] ov])
    ultimately show ?thesis by blast
  qed
  then show "wf_json (JArr as')" and "wf_json entry" by blast+
qed

text \<open>What \<open>addAsset\<close> does on a readable record set.\<close>

lemma addAsset_on_object:
  assumes "js_or (getData h ''assets'' w) assets_default = Val (JObj kvs)"
    and "map_of kvs ''assets'' = Some (JArr as)"
  shows "addAsset h asset now id1 id2 w =
     (case findIndex ''name'' (map_of asset ''name'') as of
        Inl e \<Rightarrow> (Inl e, w)
      | Inr existing \<Rightarrow>
          (case addAsset_branch asset now id1 id2 as existing of
             Inl e \<Rightarrow> (Inl e, w)
           | Inr (as', entry) \<Rightarrow>
               (case map_of kvs ''history'' of
                  Some (JArr hs) \<Rightarrow>
                    (Inr (fst (setData h ''assets''
                       (Val (JObj (AList.update ''history'' (JArr (hs @ [entry]))
                          (AList.update ''assets'' (JArr as') kvs)))) w)),
                     snd (setData h ''assets''
                       (Val (JObj (AList.update ''history'' (JArr (hs @ [entry]))
                          (AList.update ''assets'' (JArr as') kvs)))) w))
                | _ \<Rightarrow> (Inl TypeError, w))))"
  using assms
  by (simp add: addAsset_def Let_def update_conv' case_prod_beta
      split: sum.splits option.splits json.splits)

lemma addAsset_not_object:
  assumes "\<not> (\<exists>as. get_field (js_or (getData h ''assets'' w) assets_default) ''assets'' = Inr (Some (JArr as)))"
  shows "addAsset h asset now id1 id2 w = (Inl TypeError, w)"
  using assms by (auto simp add: addAsset_def Let_def split: sum.splits option.splits json.splits)

lemma addAsset_branch_names:
  assumes "distinct (map asset_name as)" and "map_of asset ''name'' = Some (JStr n)"
    and "findIndex ''name'' (Some (JStr n)) as = Inr existing"
    and "addAsset_branch asset now id1 id2 as existing = Inr (as', entry)"
  shows "distinct (map asset_name as')"
proof (cases existing)
  case None
  have "\<forall>x \<in> set as. asset_name x \<noteq> Inr (Some (JStr n))"
    using findIndex_None [of "''name''" "Some (JStr n)" as] assms(3) None
    by (auto simp add: asset_name_def strict_eq_string)
  then have "Inr (Some (JStr n)) \<notin> set (map asset_name as)" by auto
  moreover have "as' = as @ [JObj (AList.update ''lastUpdated'' (JStr now)
      (AList.update ''created'' (JStr now) (AList.update ''id'' (JStr id1) asset)))]"
    using assms(4) None by (simp add: addAsset_branch_def)
  ultimately show ?thesis using assms(1,2) by (simp add: asset_name_def update_conv')
next
  case (Some i)
  have i: "i < length as" "asset_name (as ! i) = Inr (Some (JStr n))"
    using findIndex_Some [of "''name''" "Some (JStr n)" as i] assms(3) Some
    by (auto simp add: asset_name_def strict_eq_string)
  have as': "as' = as[i := JObj (AList.update ''lastUpdated'' (JStr now) asset)]"
    using assms(4) Some by (auto simp add: addAsset_branch_def split: sum.splits)
  have "asset_name (JObj (AList.update ''lastUpdated'' (JStr now) asset)) = asset_name (as ! i)"
    using assms(2) i(2) by (simp add: asset_name_def update_conv')
  then have "map asset_name as' = map asset_name as"
    using i(1) unfolding as' by (simp add: map_update list_update_same_conv)
  then show ?thesis using assms(1) by simp
qed

lemma addAsset_preserves:
  assumes "json_roundtrip h" and "names_unique h w" and "map_of asset ''name'' = Some (JStr n)"
    and "wf_json (JObj asset)"
  shows "names_unique h (snd (addAsset h asset now id1 id2 w))"
proof (cases "\<exists>as. get_field (js_or (getData h ''assets'' w) assets_default) ''assets'' = Inr (Some (JArr as))")
  case False
  then show ?thesis using assms(2) by (simp add: addAsset_not_object)
next
  case True
  then obtain as where as: "get_field (js_or (getData h ''assets'' w) assets_default) ''assets'' = Inr (Some (JArr as))"
    by blast
  obtain kvs where d: "js_or (getData h ''assets'' w) assets_default = Val (JObj kvs)"
    and m: "map_of kvs ''assets'' = Some (JArr as)"
    and wk: "wf_json (JObj kvs)" and wa: "wf_json (JArr as)"
    using assets_data_shape [OF assms(1) as] by blast
  have u: "distinct (map asset_name as)" by (rule unique_names_of [OF assms(2) as])
  note unf = addAsset_on_object [OF d m, where asset = asset and now = now and ?id1.0 = id1 and ?id2.0 = id2,
      unfolded assms(3)]
  show ?thesis
  proof (cases "findIndex ''name'' (Some (JStr n)) as")
    case (Inl e)
    then show ?thesis using assms(2) by (simp add: unf)
  next
    case fi: (Inr existing)
    show ?thesis
    proof (cases "addAsset_branch asset now id1 id2 as existing")
      case (Inl e)
      then show ?thesis using assms(2) fi by (simp add: unf)
    next
      case (Inr r)
      obtain as' entry where r: "r = (as', entry)" by (cases r)
      have u': "distinct (map asset_name as')"
        by (rule addAsset_branch_names [OF u assms(3) fi Inr [unfolded r]])
      show ?thesis
      proof (cases "\<exists>hs. map_of kvs ''history'' = Some (JArr hs)")
        case False
        then have "snd (addAsset h asset now id1 id2 w) = w"
          using fi Inr r by (auto simp add: unf split: option.splits json.splits)
        then show ?thesis using assms(2) by simp
      next
        case True
        then obtain hs where hs: "map_of kvs ''history'' = Some (JArr hs)" by blast
        let ?kvs = "AList.update ''history'' (JArr (hs @ [entry])) (AList.update ''assets'' (JArr as') kvs)"
        have mo: "map_of ?kvs ''assets'' = Some (JArr as')" by (simp add: update_conv')
        note bw = addAsset_branch_wf [OF assms(4) wa fi Inr [unfolded r]]
        have "wf_json (JArr hs)" by (rule wf_lookup [OF wk hs])
        then have "wf_json (JArr (hs @ [entry]))" using bw(2) by (rule wf_append1)
        then have wf: "wf_json (JObj ?kvs)" by (rule wf_assets_update [OF wk bw(1)])
        have "names_unique h (snd (setData h ''assets'' (Val (JObj ?kvs)) w))"
          by (rule assets_commit [OF assms(1,2) mo u' wf])
        then show ?thesis using fi Inr r hs by (simp add: unf)
      qed
    qed
  qed
qed

lemma distinct_splice1: "distinct (map f xs) \<Longrightarrow> distinct (map f (splice1 i xs))"
proof -
  assume d: "distinct (map f xs)"
  have "map f xs = map f (take i xs) @ map f (drop i xs)"
    by (simp flip: map_append)
  also have "drop i xs = take 1 (drop i xs) @ drop (Suc i) xs"
    by (metis append_take_drop_id drop_drop plus_1_eq_Suc)
  finally have "distinct (map f (take i xs) @ map f (take 1 (drop i xs)) @ map f (drop (Suc i) xs))"
    using d by simp
  then show ?thesis by (auto simp add: splice1_def)
qed

lemma deleteAsset_preserves:
  assumes "json_roundtrip h" and "names_unique h w"
  shows "names_unique h (snd (deleteAsset h assetName now newId w))"
proof (cases "\<exists>as. get_field (js_or (getData h ''assets'' w) assets_default) ''assets'' = Inr (Some (JArr as))")
  case False
  then have "snd (deleteAsset h assetName now newId w) = w"
    by (auto simp add: deleteAsset_def Let_def split: sum.splits option.splits json.splits)
  then show ?thesis using assms(2) by simp
next
  case True
  then obtain as where as: "get_field (js_or (getData h ''assets'' w) assets_default) ''assets'' = Inr (Some (JArr as))"
    by blast
  obtain kvs where d: "js_or (getData h ''assets'' w) assets_default = Val (JObj kvs)"
    and m: "map_of kvs ''assets'' = Some (JArr as)"
    and wk: "wf_json (JObj kvs)" and wa: "wf_json (JArr as)"
    using assets_data_shape [OF assms(1) as] by blast
  have u: "distinct (map asset_name as)" by (rule unique_names_of [OF assms(2) as])
  show ?thesis
  proof (cases "findIndex ''name'' (Some assetName) as")
    case (Inl e)
    then have "snd (deleteAsset h assetName now newId w) = w"
      using as by (simp add: deleteAsset_def Let_def)
    then show ?thesis using assms(2) by simp
  next
    case (Inr r)
    show ?thesis
    proof (cases r)
      case None
      then have "snd (deleteAsset h assetName now newId w) = w"
        using as Inr by (simp add: deleteAsset_def Let_def)
      then show ?thesis using assms(2) by simp
    next
      case (Some i)
      have u': "distinct (map asset_name (splice1 i as))" by (rule distinct_splice1 [OF u])
      have i: "i < length as" using findIndex_Some [of "''name''" "Some assetName" as i] Inr Some by simp
      have wi: "wf_json (as ! i)" by (rule wf_nth [OF wa i])
      have commit: "names_unique h (snd (setData h ''assets''
          (Val (JObj (AList.update ''history'' (JArr hs) (AList.update ''assets'' (JArr (splice1 i as)) kvs)))) w))"
        if "wf_json (JArr hs)" for hs
        by (rule assets_commit [OF assms(1,2) _ u' wf_assets_update [OF wk wf_splice1 [OF wa] that]])
          (simp add: update_conv')
      have "snd (deleteAsset h assetName now newId w) = w
          \<or> (\<exists>hs n t v. map_of kvs ''history'' = Some (JArr hs)
                \<and> get_prop (as ! i) ''name'' = Inr n \<and> get_prop (as ! i) ''type'' = Inr t
                \<and> get_prop (as ! i) ''value'' = Inr v
                \<and> snd (deleteAsset h assetName now newId w) = snd (setData h ''assets''
                     (Val (JObj (AList.update ''history''
                        (JArr (hs @ [JObj (obj_lit
                                             [(''id'', Some (JStr newId)),
                                              (''name'', n),
                                              (''type'', t),
                                              (''value'', v),
                                              (''timestamp'', Some (JStr now)),
                                              (''action'', Some (JStr ''delete''))])]))
                        (AList.update ''assets'' (JArr (splice1 i as)) kvs)))) w))"
        using as d Inr Some
        by (auto simp add: deleteAsset_def Let_def update_conv' case_prod_beta
            simp del: obj_lit.simps(2,3) split: sum.splits option.splits json.splits)
      then show ?thesis
      proof
        assume "snd (deleteAsset h assetName now newId w) = w"
        then show ?thesis using assms(2) by simp
      next
        assume "\<exists>hs n t v. map_of kvs ''history'' = Some (JArr hs)
                \<and> get_prop (as ! i) ''name'' = Inr n \<and> get_prop (as ! i) ''type'' = Inr t
                \<and> get_prop (as ! i) ''value'' = Inr v
                \<and> snd (deleteAsset h assetName now newId w) = snd (setData h ''assets''
                     (Val (JObj (AList.update ''history''
                        (JArr (hs @ [JObj (obj_lit
                                             [(''id'', Some (JStr newId)),
                                              (''name'', n),
                                              (''type'', t),
                                              (''value'', v),
                                              (''timestamp'', Some (JStr now)),
                                              (''action'', Some (JStr ''delete''))])]))
                        (AList.update ''assets'' (JArr (splice1 i as)) kvs)))) w)"
        then obtain hs n t v where hs: "map_of kvs ''history'' = Some (JArr hs)"
          and p: "get_prop (as ! i) ''name'' = Inr n" "get_prop (as ! i) ''type'' = Inr t"
            "get_prop (as ! i) ''value'' = Inr v"
          and eq: "snd (deleteAsset h assetName now newId w) = snd (setData h ''assets''
                     (Val (JObj (AList.update ''history''
                        (JArr (hs @ [JObj (obj_lit
                                             [(''id'', Some (JStr newId)),
                                              (''name'', n),
                                              (''type'', t),
                                              (''value'', v),
                                              (''timestamp'', Some (JStr now)),
                                              (''action'', Some (JStr ''delete''))])]))
                        (AList.update ''assets'' (JArr (splice1 i as)) kvs)))) w)"
          by blast
        have "wf_json (JArr hs)" by (rule wf_lookup [OF wk hs])
        then have "wf_json (JArr (hs @ [JObj (obj_lit
                                             [(''id'', Some (JStr newId)),
                                              (''name'', n),
                                              (''type'', t),
                                              (''value'', v),
                                              (''timestamp'', Some (JStr now)),
                                              (''action'', Some (JStr ''delete''))])]))"
          using wf_history_entry [OF wi p] by (rule wf_append1)
        then show ?thesis unfolding eq by (rule commit)
      qed
    qed
  qed
qed

lemma asset_step_preserves:
  "json_roundtrip h \<Longrightarrow> names_unique h w \<Longrightarrow> asset_op_ok op \<Longrightarrow> names_unique h (asset_step h op w)"
proof (cases op)
  case (AddAsset asset now id1 id2)
  assume a: "json_roundtrip h" "names_unique h w" "asset_op_ok op"
  then obtain n where n: "map_of asset ''name'' = Some (JStr n)" and wf: "wf_json (JObj asset)"
    using AddAsset by (auto split: option.splits json.splits)
  show ?thesis unfolding AddAsset asset_step.simps
    by (rule addAsset_preserves [OF a(1,2) n wf])
next
  case (DeleteAsset assetName now newId)
  assume "json_roundtrip h" "names_unique h w"
  then show ?thesis using DeleteAsset by (simp add: deleteAsset_preserves)
qed

lemma run_asset_ops_preserves:
  "json_roundtrip h \<Longrightarrow> names_unique h w \<Longrightarrow> list_all asset_op_ok ops \<Longrightarrow>
   names_unique h (run_asset_ops h ops w)"
  unfolding run_asset_ops_def
  by (induction ops arbitrary: w) (simp_all add: asset_step_preserves)

lemma addAsset_effect:
  assumes "json_roundtrip h" and "\<not> encrypting w" and "map_of asset ''name'' = Some (JStr n)"
    and "fst (addAsset h asset now id1 id2 w) = Inr True" and "wf_json (JObj asset)"
  shows "\<exists>as hs entry.
       getAssets h w = Inr (Some (JArr as)) \<and> getAssetHistory h w = Inr (Some (JArr hs))
     \<and> getAssetHistory h (snd (addAsset h asset now id1 id2 w)) = Inr (Some (JArr (hs @ [entry])))
     \<and> (if Inr (Some (JStr n)) \<in> set (map asset_name as)
         then \<exists>i < length as. asset_name (as ! i) = Inr (Some (JStr n))
              \<and> getAssets h (snd (addAsset h asset now id1 id2 w)) =
                  Inr (Some (JArr (as[i := JObj (AList.update ''lastUpdated'' (JStr now) asset)])))
              \<and> get_prop entry ''action'' = Inr (Some (JStr ''update''))
              \<and> get_prop entry ''previousValue'' = get_prop (as ! i) ''value''
         else getAssets h (snd (addAsset h asset now id1 id2 w)) =
                  Inr (Some (JArr (as @ [JObj (AList.update ''lastUpdated'' (JStr now)
                     (AList.update ''created'' (JStr now) (AList.update ''id'' (JStr id1) asset)))])))
              \<and> get_prop entry ''action'' = Inr (Some (JStr ''create'')))"
proof -
  have "\<exists>as. get_field (js_or (getData h ''assets'' w) assets_default) ''assets'' = Inr (Some (JArr as))"
    using assms(4) by (rule contrapos_pp) (simp add: addAsset_not_object)
  then obtain as where as: "get_field (js_or (getData h ''assets'' w) assets_default) ''assets'' = Inr (Some (JArr as))"
    by blast
  obtain kvs where d: "js_or (getData h ''assets'' w) assets_default = Val (JObj kvs)"
    and m: "map_of kvs ''assets'' = Some (JArr as)"
    and wk: "wf_json (JObj kvs)" and wa: "wf_json (JArr as)"
    using assets_data_shape [OF assms(1) as] by blast
  note unf = addAsset_on_object [OF d m, where asset = asset and now = now and ?id1.0 = id1 and ?id2.0 = id2,
      unfolded assms(3)]
  obtain existing where fi: "findIndex ''name'' (Some (JStr n)) as = Inr existing"
    using assms(4) by (cases "findIndex ''name'' (Some (JStr n)) as") (simp_all add: unf)
  obtain as' entry where br: "addAsset_branch asset now id1 id2 as existing = Inr (as', entry)"
    using assms(4) fi by (cases "addAsset_branch asset now id1 id2 as existing") (auto simp add: unf)
  obtain hs where hs: "map_of kvs ''history'' = Some (JArr hs)"
    using assms(4) fi br by (auto simp add: unf split: option.splits json.splits)
  let ?kvs = "AList.update ''history'' (JArr (hs @ [entry])) (AList.update ''assets'' (JArr as') kvs)"
  have eq: "addAsset h asset now id1 id2 w =
      (Inr (fst (setData h ''assets'' (Val (JObj ?kvs)) w)), snd (setData h ''assets'' (Val (JObj ?kvs)) w))"
    using fi br hs by (simp add: unf)
  then have ok: "fst (setData h ''assets'' (Val (JObj ?kvs)) w)" using assms(4) by simp
  note bw = addAsset_branch_wf [OF assms(5) wa fi br]
  have "wf_json (JArr hs)" by (rule wf_lookup [OF wk hs])
  then have "wf_json (JArr (hs @ [entry]))" using bw(2) by (rule wf_append1)
  then have wf: "wf_json (JObj ?kvs)" by (rule wf_assets_update [OF wk bw(1)])
  have after: "getAssets h (snd (addAsset h asset now id1 id2 w)) = Inr (Some (JArr as'))"
    "getAssetHistory h (snd (addAsset h asset now id1 id2 w)) = Inr (Some (JArr (hs @ [entry])))"
    using getAssets_after_commit [OF assms(1,2) ok wf] by (simp_all add: eq update_conv')
  have before: "getAssets h w = Inr (Some (JArr as))" "getAssetHistory h w = Inr (Some (JArr hs))"
    using d m hs by (simp_all add: getAssets_def getAssetHistory_def)
  show ?thesis
  proof (cases existing)
    case None
    have "\<forall>x \<in> set as. asset_name x \<noteq> Inr (Some (JStr n))"
      using findIndex_None [of "''name''" "Some (JStr n)" as] fi None
      by (auto simp add: asset_name_def strict_eq_string)
    then have absent: "Inr (Some (JStr n)) \<notin> set (map asset_name as)" by auto
    have "as' = as @ [JObj (AList.update ''lastUpdated'' (JStr now)
        (AList.update ''created'' (JStr now) (AList.update ''id'' (JStr id1) asset)))]"
      and "get_prop entry ''action'' = Inr (Some (JStr ''create''))"
      using br None
      by (auto simp add: addAsset_branch_def map_of_obj_lit_Cons simp del: obj_lit.simps(2,3))
    then show ?thesis using before after absent by auto
  next
    case (Some i)
    have i: "i < length as" "asset_name (as ! i) = Inr (Some (JStr n))"
      using findIndex_Some [of "''name''" "Some (JStr n)" as i] fi Some
      by (auto simp add: asset_name_def strict_eq_string)
    then have present: "Inr (Some (JStr n)) \<in> set (map asset_name as)"
      by (metis length_map nth_map nth_mem)
    obtain oldValue where ov: "get_prop (as ! i) ''value'' = Inr oldValue"
      using br Some by (auto simp add: addAsset_branch_def split: sum.splits)
    have as': "as' = as[i := JObj (AList.update ''lastUpdated'' (JStr now) asset)]"
      and entry: "entry = JObj (obj_lit
                      [(''id'', Some (JStr id1)),
                       (''name'', map_of asset ''name''),
                       (''type'', map_of asset ''type''),
                       (''value'', map_of asset ''value''),
                       (''previousValue'', oldValue),
                       (''timestamp'', Some (JStr now)),
                       (''action'', Some (JStr ''update''))])"
      using br Some ov by (auto simp add: addAsset_branch_def)
    have act: "get_prop entry ''action'' = Inr (Some (JStr ''update''))"
      unfolding entry by (simp add: map_of_obj_lit_Cons del: obj_lit.simps(2,3))
    have prev: "get_prop entry ''previousValue'' = get_prop (as ! i) ''value''"
      unfolding entry ov
      by (cases oldValue) (simp_all add: map_of_obj_lit_Cons del: obj_lit.simps(2,3))
    show ?thesis using before after present i as' act prev by auto
  qed
qed

text \<open>
  C10. \<open>addAsset\<close> is an upsert keyed on the asset's name. If the names of the assets
  RecordSet are unique, they still are after any sequence of \<open>addAsset\<close> calls (for
  well-formed assets whose name is a string) and \<open>deleteAsset\<close> calls, for a host whose
  JSON coding round-trips. A call of \<open>addAsset\<close> that succeeds on a readable store appends exactly one
  entry to the history; if an asset of that name exists, that entry of the assets list is
  replaced in place by the asset with \<open>lastUpdated\<close> set (the list keeps its length) and
  the history entry is an \<open>update\<close> carrying the previous value; otherwise the asset is
  appended with its generated \<open>id\<close>, \<open>created\<close> and \<open>lastUpdated\<close>, and the history entry
  is a \<open>create\<close>.
\<close>

theorem addAsset_upsert_unique_names:
  assumes "json_roundtrip h" and "names_unique h w" and "list_all asset_op_ok ops"
  shows "names_unique h (run_asset_ops h ops w)
       \<and> (\<not> encrypting w \<and> map_of asset ''name'' = Some (JStr n)
            \<and> fst (addAsset h asset now id1 id2 w) = Inr True \<and> wf_json (JObj asset) \<longrightarrow>
          (\<exists>as hs entry.
             getAssets h w = Inr (Some (JArr as)) \<and> getAssetHistory h w = Inr (Some (JArr hs))
           \<and> getAssetHistory h (snd (addAsset h asset now id1 id2 w)) = Inr (Some (JArr (hs @ [entry])))
           \<and> (if Inr (Some (JStr n)) \<in> set (map asset_name as)
               then \<exists>i < length as. asset_name (as ! i) = Inr (Some (JStr n))
                    \<and> getAssets h (snd (addAsset h asset now id1 id2 w)) =
                        Inr (Some (JArr (as[i := JObj (AList.update ''lastUpdated'' (JStr now) asset)])))
                    \<and> get_prop entry ''action'' = Inr (Some (JStr ''update''))
                    \<and> get_prop entry ''previousValue'' = get_prop (as ! i) ''value''
               else getAssets h (snd (addAsset h asset now id1 id2 w)) =
                        Inr (Some (JArr (as @ [JObj (AList.update ''lastUpdated'' (JStr now)
                           (AList.update ''created'' (JStr now) (AList.update ''id'' (JStr id1) asset)))])))
                    \<and> get_prop entry ''action'' = Inr (Some (JStr ''create'')))))"
  using run_asset_ops_preserves [OF assms] addAsset_effect [OF assms(1)]
  by blast

lemma sample_assets_before:
  "getData sample_host ''assets'' plain_world = Val (JObj [(''assets'', JArr []), (''history'', JArr [])])"
  using sample_getData_plain [OF not_encrypting_plain_world _ sample_wf(1), of "''assets''"]
  by (simp add: plain_world_def getItem_def storagePrefix_def sample_assets_def del: sample_stringify.simps)

lemma sample_assets_run:
  "getAssets sample_host (run_asset_ops sample_host sample_asset_ops plain_world) =
     Inr (Some (JArr
       [JObj [(''name'', JStr ''Gold''), (''type'', JStr ''Metal''), (''value'', JNum 50),
              (''id'', JStr ''a3''), (''created'', JStr ''t2''), (''lastUpdated'', JStr ''t2'')]]))"
  "getAssetHistory sample_host (run_asset_ops sample_host sample_asset_ops plain_world) =
     Inr (Some (JArr sample_history))"
proof -
  let ?c1 = "JObj [(''name'', JStr ''Cash''), (''type'', JStr ''Savings''), (''value'', JNum 1000),
              (''id'', JStr ''a1''), (''created'', JStr ''t0''), (''lastUpdated'', JStr ''t0'')]"
  let ?c2 = "JObj [(''name'', JStr ''Cash''), (''type'', JStr ''Savings''), (''value'', JNum 1500),
              (''lastUpdated'', JStr ''t1'')]"
  let ?g = "JObj [(''name'', JStr ''Gold''), (''type'', JStr ''Metal''), (''value'', JNum 50),
              (''id'', JStr ''a3''), (''created'', JStr ''t2''), (''lastUpdated'', JStr ''t2'')]"
  define store where "store as hs = plain_world\<lparr>localStorage :=
      setItem (localStorage plain_world) (storagePrefix @ ''assets'')
        (sample_stringify (JObj [(''assets'', JArr as), (''history'', JArr hs)]))\<rparr>" for as hs
  have ne: "\<not> encrypting (store as hs)" for as hs
    by (simp add: store_def encrypting_def plain_world_def)
  have rd: "getData sample_host ''assets'' (store as hs)
      = Val (JObj [(''assets'', JArr as), (''history'', JArr hs)])"
    if "wf_json (JArr as)" and "wf_json (JArr hs)" for as hs
    using that
    by (intro sample_getData_plain [OF ne])
      (simp_all add: store_def getItem_setItem key_order_def del: sample_stringify.simps)
  have rd4: "getData sample_host ''assets'' (store [?g] sample_history)
      = Val (JObj [(''assets'', JArr [?g]), (''history'', JArr sample_history)])"
    by (rule rd) (simp_all add: key_order_def sample_history_def)
  have wr: "snd (setData sample_host ''assets''
        (Val (JObj [(''assets'', JArr as'), (''history'', JArr hs')])) (store as hs)) = store as' hs'"
    for as hs as' hs'
    unfolding sample_setData_plain [OF ne]
    by (simp add: store_def setItem_def del: sample_stringify.simps)
  have wr0: "snd (setData sample_host ''assets''
        (Val (JObj [(''assets'', JArr as'), (''history'', JArr hs')])) plain_world) = store as' hs'"
    for as' hs'
    unfolding sample_setData_plain [OF not_encrypting_plain_world]
    by (simp add: store_def del: sample_stringify.simps)
  have s1: "asset_step sample_host (AddAsset (sample_cash 1000) ''t0'' ''a1'' ''h1'') plain_world
      = store [?c1] (take 1 sample_history)"
    using wr0 [of "[?c1]" "take 1 sample_history"]
    by (simp add: addAsset_def addAsset_branch_def sample_assets_before js_or_def Let_def
        case_prod_beta sample_cash_def sample_history_def)
  have s2: "asset_step sample_host (AddAsset (sample_cash 1500) ''t1'' ''h2'' ''unused'')
        (store [?c1] (take 1 sample_history)) = store [?c2] (take 2 sample_history)"
    using wr [of "[?c2]" "take 2 sample_history" "[?c1]" "take 1 sample_history"]
    by (simp add: addAsset_def addAsset_branch_def rd key_order_def js_or_def Let_def
        case_prod_beta sample_cash_def sample_history_def)
  have s3: "asset_step sample_host (AddAsset sample_gold ''t2'' ''a3'' ''h3'')
        (store [?c2] (take 2 sample_history)) = store [?c2, ?g] (take 3 sample_history)"
    using wr [of "[?c2, ?g]" "take 3 sample_history" "[?c2]" "take 2 sample_history"]
    by (simp add: addAsset_def addAsset_branch_def rd key_order_def js_or_def Let_def
        case_prod_beta sample_gold_def sample_history_def)
  have s4: "asset_step sample_host (DeleteAsset (JStr ''Cash'') ''t3'' ''h4'')
        (store [?c2, ?g] (take 3 sample_history)) = store [?g] sample_history"
    using wr [of "[?g]" "sample_history" "[?c2, ?g]" "take 3 sample_history"]
    by (simp add: deleteAsset_def rd key_order_def js_or_def Let_def case_prod_beta splice1_def
        sample_history_def)
  have run: "run_asset_ops sample_host sample_asset_ops plain_world = store [?g] sample_history"
    by (simp only: run_asset_ops_def sample_asset_ops_def fold_simps o_apply id_apply s1 s2 s3 s4)
  show "getAssets sample_host (run_asset_ops sample_host sample_asset_ops plain_world) =
     Inr (Some (JArr [?g]))"
    by (simp add: run getAssets_def rd4 js_or_def)
  show "getAssetHistory sample_host (run_asset_ops sample_host sample_asset_ops plain_world) =
     Inr (Some (JArr sample_history))"
    by (simp add: run getAssetHistory_def rd4 js_or_def)
qed

lemma sample_names_unique: "names_unique sample_host plain_world"
  by (simp add: names_unique_def getAssets_def sample_assets_before js_or_def)

lemma sample_addAsset_run:
  "fst (addAsset sample_host (sample_cash 1000) ''t0'' ''a1'' ''h1'' plain_world) = Inr True"
  by (simp add: addAsset_def addAsset_branch_def sample_assets_before js_or_def Let_def
      case_prod_beta sample_cash_def sample_setData_plain [OF not_encrypting_plain_world])

theorem addAsset_upsert_unique_names_witness:
  "json_roundtrip sample_host \<and> names_unique sample_host plain_world
   \<and> list_all asset_op_ok sample_asset_ops
   \<and> names_unique sample_host (run_asset_ops sample_host sample_asset_ops plain_world)
   \<and> getAssets sample_host (run_asset_ops sample_host sample_asset_ops plain_world) =
       Inr (Some (JArr
         [JObj [(''name'', JStr ''Gold''), (''type'', JStr ''Metal''), (''value'', JNum 50),
                (''id'', JStr ''a3''), (''created'', JStr ''t2''), (''lastUpdated'', JStr ''t2'')]]))
   \<and> getAssetHistory sample_host (run_asset_ops sample_host sample_asset_ops plain_world) =
       Inr (Some (JArr sample_history))
   \<and> \<not> encrypting plain_world \<and> map_of (sample_cash 1000) ''name'' = Some (JStr ''Cash'')
   \<and> fst (addAsset sample_host (sample_cash 1000) ''t0'' ''a1'' ''h1'' plain_world) = Inr True
   \<and> wf_json (JObj (sample_cash 1000))"
proof -
  have na: "list_all asset_op_ok sample_asset_ops"
    by (simp add: sample_asset_ops_def sample_cash_def sample_gold_def key_order_def)
  have wf: "wf_json (JObj (sample_cash 1000))"
    by (simp add: sample_cash_def key_order_def)
  have nm: "map_of (sample_cash 1000) ''name'' = Some (JStr ''Cash'')"
    by (simp add: sample_cash_def)
  note t = addAsset_upsert_unique_names [OF sample_json_roundtrip sample_names_unique na, THEN conjunct1]
  show ?thesis
    using t sample_json_roundtrip sample_names_unique na sample_assets_run
      not_encrypting_plain_world nm sample_addAsset_run wf
    by blast
qed


end
